theory Spec2Isabelle
  imports Main "HOL-Library.Word"
begin

section \<open>JavaScript values and strings\<close>

text \<open>
  A JavaScript string is a sequence of UTF-16 code units; \<open>===\<close> on strings, \<open>split\<close>
  and \<open>trim\<close> all work on code units. \<open>ascii\<close> writes an ASCII literal.
\<close>

type_synonym jschar = "16 word"
type_synonym jsstring = "jschar list"

definition ascii :: "string \<Rightarrow> jsstring" where
  "ascii s = map (\<lambda>c. of_nat (of_char c)) s"

definition SP :: jschar where
  "SP = 0x20"

definition NL :: jschar where
  "NL = 0x0A"

text \<open>
  What \<open>JSON.parse\<close> returns, and \<open>undefined\<close> for a missing property or index.
  Numbers are modelled as integers (the program only tests them for being falsy).
  An object is its list of properties, each key once.
\<close>

datatype jsval =
    JUndefined
  | JNull
  | JBool bool
  | JNum int
  | JStr jsstring
  | JArr "jsval list"
  | JObj "(jsstring \<times> jsval) list"

text \<open>ToBoolean: \<open>undefined\<close>, \<open>null\<close>, \<open>false\<close>, \<open>0\<close> and \<open>''\<close> are falsy.\<close>

fun truthy :: "jsval \<Rightarrow> bool" where
  "truthy JUndefined = False"
| "truthy JNull = False"
| "truthy (JBool b) = b"
| "truthy (JNum n) = (n \<noteq> 0)"
| "truthy (JStr s) = (s \<noteq> [])"
| "truthy (JArr xs) = True"
| "truthy (JObj ps) = True"

text \<open>\<open>a || b\<close>\<close>

definition js_or :: "jsval \<Rightarrow> jsval \<Rightarrow> jsval" where
  "js_or a b = (if truthy a then a else b)"

text \<open>\<open>obj.key\<close> on an object: the property, or \<open>undefined\<close>.\<close>

definition get_prop :: "(jsstring \<times> jsval) list \<Rightarrow> jsstring \<Rightarrow> jsval" where
  "get_prop ps k = (case map_of ps k of Some v \<Rightarrow> v | None \<Rightarrow> JUndefined)"

text \<open>
  \<open>String.prototype.trim\<close> removes WhiteSpace and LineTerminator code units from both
  ends (ECMAScript: TAB, LF, VT, FF, CR, SP, NBSP, U+1680, U+2000..U+200A, U+2028,
  U+2029, U+202F, U+205F, U+3000, U+FEFF).
\<close>

definition is_ws :: "jschar \<Rightarrow> bool" where
  "is_ws c \<longleftrightarrow>
     c = 0x09 \<or> c = 0x0A \<or> c = 0x0B \<or> c = 0x0C \<or> c = 0x0D \<or> c = 0x20 \<or> c = 0xA0 \<or>
     c = 0x1680 \<or> (0x2000 \<le> c \<and> c \<le> 0x200A) \<or> c = 0x2028 \<or> c = 0x2029 \<or>
     c = 0x202F \<or> c = 0x205F \<or> c = 0x3000 \<or> c = 0xFEFF"

definition trim :: "jsstring \<Rightarrow> jsstring" where
  "trim s = rev (dropWhile is_ws (rev (dropWhile is_ws s)))"

text \<open>\<open>s.split(sep)\<close> for a separator of one code unit: never an empty array.\<close>

fun js_split :: "jschar \<Rightarrow> jsstring \<Rightarrow> jsstring list" where
  "js_split sep [] = [[]]"
| "js_split sep (c # cs) =
     (if c = sep then [] # js_split sep cs
      else (case js_split sep cs of [] \<Rightarrow> [[c]] | l # ls \<Rightarrow> (c # l) # ls))"

text \<open>\<open>xs.join(sep)\<close>\<close>

fun js_join :: "jsstring \<Rightarrow> jsstring list \<Rightarrow> jsstring" where
  "js_join sep [] = []"
| "js_join sep [x] = x"
| "js_join sep (x # y # ys) = x @ sep @ js_join sep (y # ys)"

section \<open>The content flattener \<open>logContent\<close>\<close>

text \<open>
  \<^verbatim>\<open>
  data.split('\n').filter((line) => line.trim())
      .forEach((line) => { console.log(`${indent} ${line.trim()}`); });
  \<close>
  The model returns the strings passed to \<open>console.log\<close>, in order.
\<close>

definition log_lines :: "jsstring \<Rightarrow> jsstring \<Rightarrow> jsstring list" where
  "log_lines s indent =
     map (\<lambda>line. indent @ [SP] @ trim line) (filter (\<lambda>line. trim line \<noteq> []) (js_split NL s))"

lemma size_get_prop:
  "size (get_prop ps k) \<le> size_list (size_prod (\<lambda>x. 0) size) ps"
proof (induction ps)
  case Nil
  then show ?case by (simp add: get_prop_def)
next
  case (Cons p ps)
  then show ?case by (cases p) (auto simp: get_prop_def)
qed

text \<open>
  \<open>logContent\<close> of the TypeScript entry point (the array branch recurses only into
  items with \<open>typeof item === 'object' && item !== null\<close>, which holds of arrays and
  objects).
\<close>

function logContent :: "jsval \<Rightarrow> jsstring \<Rightarrow> jsstring list" where
  "logContent (JArr items) indent =
     concat (map (\<lambda>item.
       (case item of
          JStr s \<Rightarrow> log_lines s indent
        | JArr xs \<Rightarrow> logContent item indent
        | JObj ps \<Rightarrow> logContent item indent
        | _ \<Rightarrow> [])) items)"
| "logContent (JObj ps) indent =
     (let content = get_prop ps (ascii ''content'') in
      if truthy content then
        (case content of
           JStr s \<Rightarrow> [indent @ [SP] @ trim s]
         | _ \<Rightarrow> logContent content (indent @ [SP, SP]))
      else [])"
| "logContent (JStr s) indent = log_lines s indent"
| "logContent JUndefined indent = []"
| "logContent JNull indent = []"
| "logContent (JBool b) indent = []"
| "logContent (JNum n) indent = []"
  by pat_completeness auto
termination
  by (relation "measure (\<lambda>(d, i). size d)") (auto simp: size_get_prop less_Suc_eq_le size_list_estimation')

text \<open>
  \<open>logContent\<close> of \<open>index.js\<close>: the array branch calls itself on every item that is
  not a string.
\<close>

function logContent_js :: "jsval \<Rightarrow> jsstring \<Rightarrow> jsstring list" where
  "logContent_js (JArr items) indent =
     concat (map (\<lambda>item.
       (case item of
          JStr s \<Rightarrow> log_lines s indent
        | _ \<Rightarrow> logContent_js item indent)) items)"
| "logContent_js (JObj ps) indent =
     (let content = get_prop ps (ascii ''content'') in
      if truthy content then
        (case content of
           JStr s \<Rightarrow> [indent @ [SP] @ trim s]
         | _ \<Rightarrow> logContent_js content (indent @ [SP, SP]))
      else [])"
| "logContent_js (JStr s) indent = log_lines s indent"
| "logContent_js JUndefined indent = []"
| "logContent_js JNull indent = []"
| "logContent_js (JBool b) indent = []"
| "logContent_js (JNum n) indent = []"
  by pat_completeness auto
termination
  by (relation "measure (\<lambda>(d, i). size d)") (auto simp: size_get_prop less_Suc_eq_le size_list_estimation')


section \<open>Errors\<close>

datatype error =
    TypeError
  | SyntaxError
  | IOError
  | NotLoaded

section \<open>Library functions of the runtime\<close>

text \<open>
  Functions of Node.js and of the JavaScript standard library that the program calls
  and that are not part of the repository. \<open>JSON_parse\<close> is \<open>None\<close> where
  \<open>JSON.parse\<close> throws a SyntaxError.
\<close>

record js_lib =
  JSON_parse :: "jsstring \<Rightarrow> jsval option"
  JSON_stringify :: "jsval \<Rightarrow> jsstring"
  String_of :: "jsval \<Rightarrow> jsstring"
  path_join :: "jsstring \<Rightarrow> jsstring \<Rightarrow> jsstring"
  path_extname :: "jsstring \<Rightarrow> jsstring"
  toLowerCase :: "jsstring \<Rightarrow> jsstring"

section \<open>The entry normalizer \<open>_formatEntry\<close>\<close>

record DictionaryEntry =
  term' :: jsval
  reading :: jsval
  tags :: "jsstring list"
  rules :: jsval
  score :: jsval
  definitions :: "jsstring list"
  sequence :: jsval
  termTags :: jsval

text \<open>
  \<open>rawEntry[i]\<close> for \<open>i\<close> from 0 to 7: a TypeError on \<open>null\<close> and \<open>undefined\<close>, the
  element of an array, the code unit of a string, the property named by the digit of an
  object, and \<open>undefined\<close> where there is none.
\<close>

definition array_get :: "jsval list \<Rightarrow> nat \<Rightarrow> jsval" where
  "array_get xs i = (if i < length xs then xs ! i else JUndefined)"

fun js_index :: "jsval \<Rightarrow> nat \<Rightarrow> error + jsval" where
  "js_index JUndefined i = Inl TypeError"
| "js_index JNull i = Inl TypeError"
| "js_index (JArr xs) i = Inr (array_get xs i)"
| "js_index (JStr s) i = Inr (if i < length s then JStr [s ! i] else JUndefined)"
| "js_index (JObj ps) i = Inr (get_prop ps [of_nat (48 + i)])"
| "js_index (JBool b) i = Inr JUndefined"
| "js_index (JNum n) i = Inr JUndefined"

definition and_then :: "error + 'a \<Rightarrow> ('a \<Rightarrow> error + 'b) \<Rightarrow> error + 'b" where
  "and_then m f = (case m of Inl e \<Rightarrow> Inl e | Inr x \<Rightarrow> f x)"

lemma size_get_prop_member:
  assumes "get_prop ps k = JArr xs" "x \<in> set xs"
  shows "size x < size_list (size_prod (\<lambda>x. 0) size) ps"
proof -
  have "size x < Suc (size_list size xs)"
    using assms(2) by (induction xs) auto
  also have "\<dots> = size (get_prop ps k)"
    using assms(1) by simp
  also have "\<dots> \<le> size_list (size_prod (\<lambda>x. 0) size) ps"
    by (rule size_get_prop)
  finally show ?thesis .
qed

function formatDefinition :: "js_lib \<Rightarrow> jsval \<Rightarrow> jsstring" where
  "formatDefinition L (JStr s) = s"
| "formatDefinition L (JObj ps) =
     (let content = get_prop ps (ascii ''content'') in
      if truthy content then
        (case content of
           JArr xs \<Rightarrow> js_join (ascii ''; '') (map (formatDefinition L) xs)
         | _ \<Rightarrow> formatDefinition L content)
      else JSON_stringify L (JObj ps))"
| "formatDefinition L (JArr xs) = JSON_stringify L (JArr xs)"
| "formatDefinition L JUndefined = String_of L JUndefined"
| "formatDefinition L JNull = String_of L JNull"
| "formatDefinition L (JBool b) = String_of L (JBool b)"
| "formatDefinition L (JNum n) = String_of L (JNum n)"
  by pat_completeness auto
termination
  by (relation "measure (\<lambda>(L, d). size d)")
    (auto simp: size_get_prop less_Suc_eq_le dest: size_get_prop_member [OF sym])

text \<open>
  \<open>(rawEntry[2] || '').split(' ').filter((t) => t)\<close>: calling \<open>split\<close> on a truthy
  value that is not a string is a TypeError.
\<close>

definition format_tags :: "jsval \<Rightarrow> error + jsstring list" where
  "format_tags v =
     (case js_or v (JStr []) of
        JStr s \<Rightarrow> Inr (filter (\<lambda>t. t \<noteq> []) (js_split SP s))
      | _ \<Rightarrow> Inl TypeError)"

definition formatEntry :: "js_lib \<Rightarrow> jsval \<Rightarrow> error + DictionaryEntry" where
  "formatEntry L rawEntry =
     and_then (js_index rawEntry 5) (\<lambda>r5.
     let definitions = (case r5 of JArr ds \<Rightarrow> map (formatDefinition L) ds
                        | _ \<Rightarrow> [formatDefinition L r5]) in
     and_then (js_index rawEntry 0) (\<lambda>r0.
     and_then (js_index rawEntry 1) (\<lambda>r1.
     and_then (js_index rawEntry 2) (\<lambda>r2.
     and_then (format_tags r2) (\<lambda>tags.
     and_then (js_index rawEntry 3) (\<lambda>r3.
     and_then (js_index rawEntry 4) (\<lambda>r4.
     and_then (js_index rawEntry 6) (\<lambda>r6.
     and_then (js_index rawEntry 7) (\<lambda>r7.
     Inr \<lparr> term' = r0, reading = r1, tags = tags,
           rules = js_or r3 (JStr []), score = js_or r4 (JNum 0),
           definitions = definitions,
           sequence = js_or r6 (JNum 0), termTags = js_or r7 (JStr []) \<rparr>)))))))))"

section \<open>The dictionary index \<open>DictionarySearcher\<close>\<close>

text \<open>
  A line written by \<open>console.error\<close> during the load: the path of a file that did not
  parse, or the error that ended the load.
\<close>

datatype log = ErrorParsingJSONFile jsstring | ErrorLoadingDictionaries error

text \<open>
  The searcher and the part of the store it works on. An entry is an object: \<open>objects\<close>
  holds the entries made by \<open>_formatEntry\<close> in the order of their creation, and a
  reference to an entry is its position there. A bucket is an array of references. The
  keys of a \<open>Map\<close> are compared by SameValueZero, which on strings is equality of the
  code units. \<open>findTerm\<close> asks for string keys only; under a key that is an array or
  an object (compared by reference in JavaScript, by value here) no lookup ever looks.
\<close>

record DictionarySearcher =
  termDictionaries :: "jsval \<rightharpoonup> nat list"
  readingIndex :: "jsval \<rightharpoonup> nat list"
  isReady :: bool
  objects :: "DictionaryEntry list"
  console :: "log list"

definition constructor :: DictionarySearcher where
  "constructor = \<lparr> termDictionaries = Map.empty, readingIndex = Map.empty, isReady = False,
     objects = [], console = [] \<rparr>"

text \<open>
  \<^verbatim>\<open>
  if (!map.has(key)) { map.set(key, []); }
  map.get(key)?.push(ref);
  \<close>
\<close>

definition push_bucket :: "(jsval \<rightharpoonup> nat list) \<Rightarrow> jsval \<Rightarrow> nat \<Rightarrow> (jsval \<rightharpoonup> nat list)" where
  "push_bucket m key ref =
     (let m1 = (if m key = None then m(key \<mapsto> []) else m) in
      case m1 key of Some bucket \<Rightarrow> m1(key \<mapsto> bucket @ [ref]) | None \<Rightarrow> m1)"

definition index_entry :: "DictionaryEntry \<Rightarrow> DictionarySearcher \<Rightarrow> DictionarySearcher" where
  "index_entry formattedEntry S =
     (let ref = length (objects S) in
      S \<lparr> objects := objects S @ [formattedEntry],
          termDictionaries := push_bucket (termDictionaries S) (term' formattedEntry) ref,
          readingIndex := push_bucket (readingIndex S) (reading formattedEntry) ref \<rparr>)"

text \<open>
  The loops of \<open>loadDictionaries\<close> return the error thrown, if any, and the searcher
  as it is then (the load works on the searcher in place).
\<close>

fun load_entries :: "js_lib \<Rightarrow> jsval list \<Rightarrow> DictionarySearcher \<Rightarrow> error option \<times> DictionarySearcher" where
  "load_entries L [] S = (None, S)"
| "load_entries L (entry # entries) S =
     (case formatEntry L entry of
        Inl e \<Rightarrow> (Some e, S)
      | Inr formattedEntry \<Rightarrow> load_entries L entries (index_entry formattedEntry S))"

text \<open>What the file system answers: a file and the outcome of reading it.\<close>

datatype fs_file = File (file_name: jsstring) (readFile: "error + jsstring")

text \<open>
  A name under the collections directory, the outcome of \<open>stat\<close> (is it a directory)
  and of \<open>readdir\<close> on it.
\<close>

datatype fs_collection =
  Collection (collection_name: jsstring) (isDirectory: "error + bool") (readdir: "error + fs_file list")

definition load_file :: "js_lib \<Rightarrow> jsstring \<Rightarrow> fs_file \<Rightarrow> DictionarySearcher \<Rightarrow> error option \<times> DictionarySearcher" where
  "load_file L collectionPath file S =
     (let filePath = path_join L collectionPath (file_name file) in
      case readFile file of
        Inl e \<Rightarrow> (Some e, S)
      | Inr data \<Rightarrow>
          (case JSON_parse L data of
             None \<Rightarrow> (None, S \<lparr> console := console S @ [ErrorParsingJSONFile filePath] \<rparr>)
           | Some parsed \<Rightarrow>
               load_entries L (case parsed of JArr entries \<Rightarrow> entries | _ \<Rightarrow> [parsed]) S))"

fun load_files :: "js_lib \<Rightarrow> jsstring \<Rightarrow> fs_file list \<Rightarrow> DictionarySearcher \<Rightarrow> error option \<times> DictionarySearcher" where
  "load_files L collectionPath [] S = (None, S)"
| "load_files L collectionPath (file # files) S =
     (case load_file L collectionPath file S of
        (Some e, S') \<Rightarrow> (Some e, S')
      | (None, S') \<Rightarrow> load_files L collectionPath files S')"

definition load_collection :: "js_lib \<Rightarrow> jsstring \<Rightarrow> fs_collection \<Rightarrow> DictionarySearcher \<Rightarrow> error option \<times> DictionarySearcher" where
  "load_collection L collectionsDir collection S =
     (let collectionPath = path_join L collectionsDir (collection_name collection) in
      case isDirectory collection of
        Inl e \<Rightarrow> (Some e, S)
      | Inr isDir \<Rightarrow>
          if isDir then
            (case readdir collection of
               Inl e \<Rightarrow> (Some e, S)
             | Inr files \<Rightarrow>
                 load_files L collectionPath
                   (filter (\<lambda>file. path_extname L (file_name file) = ascii ''.json'') files) S)
          else (None, S))"

fun load_collections :: "js_lib \<Rightarrow> jsstring \<Rightarrow> fs_collection list \<Rightarrow> DictionarySearcher \<Rightarrow> error option \<times> DictionarySearcher" where
  "load_collections L collectionsDir [] S = (None, S)"
| "load_collections L collectionsDir (collection # collections) S =
     (case load_collection L collectionsDir collection S of
        (Some e, S') \<Rightarrow> (Some e, S')
      | (None, S') \<Rightarrow> load_collections L collectionsDir collections S')"

text \<open>
  \<open>loadDictionaries\<close>: \<open>fs\<close> is the outcome of \<open>readdir\<close> on the collections
  directory. An error is logged and thrown again; \<open>_isReady\<close> is set on the normal
  exit only.
\<close>

definition loadDictionaries :: "js_lib \<Rightarrow> jsstring \<Rightarrow> error + fs_collection list \<Rightarrow> DictionarySearcher \<Rightarrow> error option \<times> DictionarySearcher" where
  "loadDictionaries L collectionsDir fs S =
     (case fs of
        Inl e \<Rightarrow> (Some e, S \<lparr> console := console S @ [ErrorLoadingDictionaries e] \<rparr>)
      | Inr collections \<Rightarrow>
          (case load_collections L collectionsDir collections S of
             (Some e, S') \<Rightarrow> (Some e, S' \<lparr> console := console S' @ [ErrorLoadingDictionaries e] \<rparr>)
           | (None, S') \<Rightarrow> (None, S' \<lparr> isReady := True \<rparr>)))"

text \<open>\<open>[...new Set(xs)]\<close>: the elements of \<open>xs\<close> in the order of their first occurrence.\<close>

definition Set_add :: "'a list \<Rightarrow> 'a \<Rightarrow> 'a list" where
  "Set_add s x = (if x \<in> set s then s else s @ [x])"

definition new_Set :: "'a list \<Rightarrow> 'a list" where
  "new_Set xs = foldl Set_add [] xs"

text \<open>\<open>map.get(key) || []\<close>\<close>

definition get_or_empty :: "(jsval \<rightharpoonup> nat list) \<Rightarrow> jsstring \<Rightarrow> nat list" where
  "get_or_empty m key = (case m (JStr key) of Some bucket \<Rightarrow> bucket | None \<Rightarrow> [])"

definition findTerm :: "DictionarySearcher \<Rightarrow> jsstring \<Rightarrow> error + nat list" where
  "findTerm S searchTerm =
     (if \<not> isReady S then Inl NotLoaded
      else
        (let termResults = get_or_empty (termDictionaries S) searchTerm;
             readingResults = get_or_empty (readingIndex S) searchTerm
         in Inr (new_Set (termResults @ readingResults))))"

section \<open>The lemma capability \<open>getBasicForm\<close>\<close>

record KuromojiToken =
  basic_form :: jsstring
  pos :: jsstring
  pos_detail_1 :: jsstring
  pos_detail_2 :: jsstring
  pos_detail_3 :: jsstring
  conjugated_type :: jsstring
  conjugated_form :: jsstring
  token_reading :: jsstring
  pronunciation :: jsstring
  surface_form :: jsstring

text \<open>
  \<open>DictionaryApp.getBasicForm\<close> of \<open>index.ts\<close>; the tokenizer is the external
  \<open>tokenize\<close>.
  \<^verbatim>\<open>
  const tokens = this.tokenizer.tokenize(searchTerm);
  return tokens.length === 0 ? searchTerm : tokens[0].basic_form;
  \<close>
\<close>

definition getBasicForm :: "(jsstring \<Rightarrow> KuromojiToken list) \<Rightarrow> jsstring \<Rightarrow> jsstring" where
  "getBasicForm tokenize searchTerm =
     (let tokens = tokenize searchTerm in
      if length tokens = 0 then searchTerm else basic_form (tokens ! 0))"

text \<open>
  The function \<open>getBasicForm\<close> of the function-based entry points (\<open>index.js\<close> and its
  TypeScript twin). \<open>built\<close> is what the kuromoji builder hands to the callback: an
  error or a tokenizer. The result is the outcome of the promise; \<open>tokens[0].basic_form\<close>
  on an empty array is a TypeError thrown in the callback, and the promise never
  resolves.
  \<^verbatim>\<open>
  if (err) reject(err);
  const tokens = tokenizer.tokenize(searchTerm);
  resolve(tokens[0].basic_form);
  \<close>
\<close>

definition getBasicForm_promise :: "error + (jsstring \<Rightarrow> KuromojiToken list) \<Rightarrow> jsstring \<Rightarrow> error + jsstring" where
  "getBasicForm_promise built searchTerm =
     (case built of
        Inl err \<Rightarrow> Inl err
      | Inr tokenize \<Rightarrow>
          (let tokens = tokenize searchTerm in
           case tokens of [] \<Rightarrow> Inl TypeError | token # _ \<Rightarrow> Inr (basic_form token)))"

section \<open>The function-based loader: one term bank for each collection\<close>

type_synonym DictionaryMap = "(jsstring \<times> jsval list) list"

text \<open>\<open>termBank.concat(obj)\<close>: an array is spread, any other value is appended.\<close>

definition js_concat :: "jsval list \<Rightarrow> jsval \<Rightarrow> jsval list" where
  "js_concat termBank obj = termBank @ (case obj of JArr xs \<Rightarrow> xs | _ \<Rightarrow> [obj])"

text \<open>\<open>map.set(key, value)\<close> on a \<open>Map\<close> kept in insertion order.\<close>

fun Map_set :: "('k \<times> 'v) list \<Rightarrow> 'k \<Rightarrow> 'v \<Rightarrow> ('k \<times> 'v) list" where
  "Map_set [] key v = [(key, v)]"
| "Map_set ((k, w) # m) key v = (if k = key then (k, v) # m else (k, w) # Map_set m key v)"

text \<open>
  The promises of \<open>jsonFiles.map(async (file) => ...)\<close> under \<open>Promise.all\<close>, in the
  order in which the reads complete: each appends its entries to \<open>termBank\<close> when its
  read has completed and its content has parsed, and the first read or parse that fails
  rejects the whole.
\<close>

fun readPromises :: "js_lib \<Rightarrow> fs_file list \<Rightarrow> jsval list \<Rightarrow> error + jsval list" where
  "readPromises L [] termBank = Inr termBank"
| "readPromises L (file # files) termBank =
     (case readFile file of
        Inl e \<Rightarrow> Inl e
      | Inr data \<Rightarrow>
          (case JSON_parse L data of
             None \<Rightarrow> Inl SyntaxError
           | Some obj \<Rightarrow> readPromises L files (js_concat termBank obj)))"

text \<open>
  The reads of the files of a collection run concurrently; \<open>schedule\<close> gives the order
  in which they complete, a permutation of the files read.
\<close>

fun load_collections_map :: "js_lib \<Rightarrow> (fs_file list \<Rightarrow> fs_file list) \<Rightarrow> fs_collection list \<Rightarrow> DictionaryMap \<Rightarrow> error + DictionaryMap" where
  "load_collections_map L schedule [] dictionaryMap = Inr dictionaryMap"
| "load_collections_map L schedule (collection # collections) dictionaryMap =
     (case isDirectory collection of
        Inl e \<Rightarrow> Inl e
      | Inr isDir \<Rightarrow>
          if isDir then
            (case readdir collection of
               Inl e \<Rightarrow> Inl e
             | Inr files \<Rightarrow>
                 and_then
                   (readPromises L
                      (schedule (filter (\<lambda>file. path_extname L (file_name file) = ascii ''.json'') files))
                      [])
                   (\<lambda>termBank. load_collections_map L schedule collections
                      (Map_set dictionaryMap (collection_name collection) termBank)))
          else load_collections_map L schedule collections dictionaryMap)"

definition loadDictionaries_map :: "js_lib \<Rightarrow> (fs_file list \<Rightarrow> fs_file list) \<Rightarrow> error + fs_collection list \<Rightarrow> error + DictionaryMap" where
  "loadDictionaries_map L schedule fs =
     (case fs of Inl e \<Rightarrow> Inl e | Inr collections \<Rightarrow> load_collections_map L schedule collections [])"

section \<open>The lookup resolver \<open>processQuery\<close>\<close>

text \<open>
  \<^verbatim>\<open>
  (typeof entry[0] === 'string' && entry[0] === searchTerm) ||
  (typeof entry[1] === 'string' && entry[1] === searchTerm)
  \<close>
\<close>

definition entry_matches :: "jsstring \<Rightarrow> jsval \<Rightarrow> error + bool" where
  "entry_matches searchTerm entry =
     and_then (js_index entry 0) (\<lambda>e0.
       if e0 = JStr searchTerm then Inr True
       else and_then (js_index entry 1) (\<lambda>e1. Inr (e1 = JStr searchTerm)))"

text \<open>\<open>termBank.filter(...)\<close> with a test that may throw.\<close>

fun filter_bank :: "jsstring \<Rightarrow> jsval list \<Rightarrow> error + jsval list" where
  "filter_bank searchTerm [] = Inr []"
| "filter_bank searchTerm (entry # termBank) =
     and_then (entry_matches searchTerm entry) (\<lambda>b.
     and_then (filter_bank searchTerm termBank) (\<lambda>results.
       Inr (if b then entry # results else results)))"

text \<open>
  \<^verbatim>\<open>
  console.log(`\n=== Results from ${collectionName} ===`);
  results.forEach((result) => {
      const birdnest = result[5]; logContent(birdnest); console.log('---'); });
  \<close>
\<close>

fun display_each :: "jsval list \<Rightarrow> error + jsstring list" where
  "display_each [] = Inr []"
| "display_each (result # results) =
     and_then (js_index result 5) (\<lambda>birdnest.
     and_then (display_each results) (\<lambda>lines.
       Inr (logContent birdnest [] @ [ascii ''---''] @ lines)))"

definition display_results :: "jsstring \<Rightarrow> jsval list \<Rightarrow> error + jsstring list" where
  "display_results collectionName results =
     and_then (display_each results) (\<lambda>lines.
       Inr ((ascii ''\<newline>=== Results from '' @ collectionName @ ascii '' ==='') # lines))"

text \<open>
  The state of one query: the variable \<open>basicForm\<close> (\<open>None\<close> is \<open>null\<close>), the
  arguments of the calls of \<open>getBasicForm\<close> made so far, and the lines logged. The loop
  returns its outcome together with the state, so that what was called and logged before
  an error is kept.
\<close>

record query_state =
  basicForm :: "jsstring option"
  calls :: "jsstring list"
  stdout :: "jsstring list"

text \<open>
  \<^verbatim>\<open>
  if (!basicForm) { basicForm = await getBasicForm(searchTerm); }
  \<close>
  \<open>!basicForm\<close> holds of \<open>null\<close> and of the empty string. \<open>getBasicForm_p\<close> is the
  outcome of the promise of \<open>getBasicForm\<close>.
\<close>

definition ensure_basicForm :: "(jsstring \<Rightarrow> error + jsstring) \<Rightarrow> jsstring \<Rightarrow> query_state \<Rightarrow> (error + jsstring) \<times> query_state" where
  "ensure_basicForm getBasicForm_p searchTerm st =
     (let await_getBasicForm =
        (case getBasicForm_p searchTerm of
           Inl e \<Rightarrow> (Inl e, st \<lparr> calls := calls st @ [searchTerm] \<rparr>)
         | Inr b \<Rightarrow> (Inr b, st \<lparr> basicForm := Some b, calls := calls st @ [searchTerm] \<rparr>))
      in case basicForm st of
           None \<Rightarrow> await_getBasicForm
         | Some b \<Rightarrow> if b = [] then await_getBasicForm else (Inr b, st))"

text \<open>
  The body of the loop over the collections: the entries shown for the collection (none
  when nothing is shown), or the error thrown, and the state after it.
\<close>

definition show_results :: "jsstring \<Rightarrow> jsval list \<Rightarrow> query_state \<Rightarrow> (error + jsval list) \<times> query_state" where
  "show_results collectionName results st =
     (case display_results collectionName results of
        Inl e \<Rightarrow> (Inl e, st)
      | Inr lines \<Rightarrow> (Inr results, st \<lparr> stdout := stdout st @ lines \<rparr>))"

definition resolve_collection :: "(jsstring \<Rightarrow> error + jsstring) \<Rightarrow> jsstring \<Rightarrow> jsstring \<times> jsval list \<Rightarrow> query_state \<Rightarrow> (error + jsval list) \<times> query_state" where
  "resolve_collection getBasicForm_p searchTerm collection st =
     (case collection of (collectionName, termBank) \<Rightarrow>
      case filter_bank searchTerm termBank of
        Inl e \<Rightarrow> (Inl e, st)
      | Inr results \<Rightarrow>
          if length results > 0 then show_results collectionName results st
          else
            (case ensure_basicForm getBasicForm_p searchTerm st of
               (Inl e, st1) \<Rightarrow> (Inl e, st1)
             | (Inr b, st1) \<Rightarrow>
                 (case filter_bank b termBank of
                    Inl e \<Rightarrow> (Inl e, st1)
                  | Inr basicFormResults \<Rightarrow>
                      if length basicFormResults > 0
                      then show_results collectionName basicFormResults st1
                      else (Inr [], st1))))"

text \<open>
  The loop: the error that ended it, if any, what was shown for each collection it got
  through, and the state.
\<close>

fun for_collections :: "(jsstring \<Rightarrow> error + jsstring) \<Rightarrow> jsstring \<Rightarrow> DictionaryMap \<Rightarrow> query_state \<Rightarrow> error option \<times> jsval list list \<times> query_state" where
  "for_collections getBasicForm_p searchTerm [] st = (None, [], st)"
| "for_collections getBasicForm_p searchTerm (collection # dictionaryMap) st =
     (case resolve_collection getBasicForm_p searchTerm collection st of
        (Inl e, st1) \<Rightarrow> (Some e, [], st1)
      | (Inr shown, st1) \<Rightarrow>
          (case for_collections getBasicForm_p searchTerm dictionaryMap st1 of
             (outcome, rest, st2) \<Rightarrow> (outcome, shown # rest, st2)))"

text \<open>
  The callback of the prompt either closes the readline interface and returns, or
  handles the search term and prompts again.
  \<^verbatim>\<open>
  if (['exit', 'quit', 'q'].includes(searchTerm.toLowerCase())) { rl.close(); return; }
  \<close>
\<close>

datatype 'a turn = Closed | Prompted 'a

definition exit_command :: "js_lib \<Rightarrow> jsstring \<Rightarrow> bool" where
  "exit_command L searchTerm \<longleftrightarrow>
     toLowerCase L searchTerm \<in> set [ascii ''exit'', ascii ''quit'', ascii ''q'']"

text \<open>
  \<open>processQuery\<close>: after the exit test \<open>basicForm\<close> starts as \<open>null\<close>, then the loop
  runs over the collections of the map in order.
\<close>

definition processQuery :: "js_lib \<Rightarrow> (jsstring \<Rightarrow> error + jsstring) \<Rightarrow> jsstring \<Rightarrow> DictionaryMap \<Rightarrow> (error option \<times> jsval list list \<times> query_state) turn" where
  "processQuery L getBasicForm_p searchTerm dictionaryMap =
     (if exit_command L searchTerm then Closed
      else Prompted (for_collections getBasicForm_p searchTerm dictionaryMap
        \<lparr> basicForm = None, calls = [], stdout = [] \<rparr>))"

text \<open>
  The callback of \<open>DictionaryApp.start\<close> (\<open>index.ts\<close>): after the same exit test, the
  entries found and the arguments of the calls of \<open>getBasicForm\<close>.
  \<^verbatim>\<open>
  let results = this.searcher.findTerm(searchTerm);
  if (results.length === 0) {
      const basicForm = await this.getBasicForm(searchTerm);
      if (basicForm !== searchTerm) { results = this.searcher.findTerm(basicForm); }
  }
  \<close>
\<close>

definition start_processQuery :: "js_lib \<Rightarrow> (jsstring \<Rightarrow> KuromojiToken list) \<Rightarrow> DictionarySearcher \<Rightarrow> jsstring \<Rightarrow> (error + nat list \<times> jsstring list) turn" where
  "start_processQuery L tokenize S searchTerm =
     (if exit_command L searchTerm then Closed
      else Prompted
        (and_then (findTerm S searchTerm) (\<lambda>results.
           if length results = 0 then
             (let basicForm = getBasicForm tokenize searchTerm in
              if basicForm \<noteq> searchTerm then
                and_then (findTerm S basicForm) (\<lambda>results'. Inr (results', [searchTerm]))
              else Inr (results, [searchTerm]))
           else Inr (results, []))))"

section \<open>The invariant of the index\<close>

text \<open>
  The bucket of a key (empty when the map has no such key), and the invariant of the two
  maps: the bucket of a key holds the references to the entries with that term (that
  reading), in the order of their creation.
\<close>

definition bucket :: "(jsval \<rightharpoonup> nat list) \<Rightarrow> jsval \<Rightarrow> nat list" where
  "bucket m k = (case m k of Some b \<Rightarrow> b | None \<Rightarrow> [])"

definition index_inv :: "DictionarySearcher \<Rightarrow> bool" where
  "index_inv S \<longleftrightarrow>
     (\<forall>k. bucket (termDictionaries S) k = filter (\<lambda>r. term' (objects S ! r) = k) [0..<length (objects S)]) \<and>
     (\<forall>k. bucket (readingIndex S) k = filter (\<lambda>r. reading (objects S ! r) = k) [0..<length (objects S)])"

section \<open>Notions of the specification\<close>

text \<open>
  An exact match of a query: an entry whose term (position 0) or reading (position 1) is
  the query string.
\<close>

definition is_exact_match :: "jsstring \<Rightarrow> jsval \<Rightarrow> bool" where
  "is_exact_match query entry \<longleftrightarrow>
     js_index entry 0 = Inr (JStr query) \<or> js_index entry 1 = Inr (JStr query)"

text \<open>
  What the resolver is to show for one collection, in the words of the specification: the
  exact matches of the query if there are any, the exact matches of the lemma otherwise.
\<close>

definition resolve_spec :: "jsstring \<Rightarrow> jsstring \<Rightarrow> jsval list \<Rightarrow> jsval list" where
  "resolve_spec query lemma_form termBank =
     (if filter (is_exact_match query) termBank \<noteq> [] then filter (is_exact_match query) termBank
      else filter (is_exact_match lemma_form) termBank)"

text \<open>A term bank whose entries can be indexed: none is \<open>null\<close> or \<open>undefined\<close>.\<close>

definition indexable :: "jsval list \<Rightarrow> bool" where
  "indexable termBank \<longleftrightarrow> list_all (\<lambda>entry. entry \<noteq> JNull \<and> entry \<noteq> JUndefined) termBank"


text \<open>
  The raw entries that the files under the collections directory hold, in the order of
  the listing: those of the files with the extension \<open>.json\<close>, in the directories,
  whose content parses. A parsed value that is not an array is one entry.
\<close>

definition file_entries :: "js_lib \<Rightarrow> fs_file \<Rightarrow> jsval list" where
  "file_entries L file =
     (case readFile file of
        Inl e \<Rightarrow> []
      | Inr data \<Rightarrow>
          (case JSON_parse L data of
             None \<Rightarrow> []
           | Some parsed \<Rightarrow> (case parsed of JArr entries \<Rightarrow> entries | _ \<Rightarrow> [parsed])))"

definition collection_entries :: "js_lib \<Rightarrow> fs_collection \<Rightarrow> jsval list" where
  "collection_entries L collection =
     (case isDirectory collection of
        Inl e \<Rightarrow> []
      | Inr isDir \<Rightarrow>
          if isDir then
            (case readdir collection of
               Inl e \<Rightarrow> []
             | Inr files \<Rightarrow>
                 concat (map (file_entries L)
                   (filter (\<lambda>file. path_extname L (file_name file) = ascii ''.json'') files)))
          else [])"

definition all_entries :: "js_lib \<Rightarrow> fs_collection list \<Rightarrow> jsval list" where
  "all_entries L collections = concat (map (collection_entries L) collections)"

text \<open>
  What is logged for the entries shown of a collection: the header, then for each entry the
  lines of its content (position 5) at the empty indent and the line \<open>---\<close>; nothing
  when no entry is shown.
\<close>

definition shown_lines :: "jsstring \<Rightarrow> jsval list \<Rightarrow> jsstring list" where
  "shown_lines collectionName results =
     (ascii ''\<newline>=== Results from '' @ collectionName @ ascii '' ==='') #
       concat (map (\<lambda>result. logContent (projr (js_index result 5)) [] @ [ascii ''---'']) results)"

definition collection_output :: "jsstring \<Rightarrow> jsval list \<Rightarrow> jsstring list" where
  "collection_output collectionName results =
     (if results = [] then [] else shown_lines collectionName results)"

text \<open>A collection in which the query has no exact match.\<close>

definition needs_lemma :: "jsstring \<Rightarrow> jsstring \<times> jsval list \<Rightarrow> bool" where
  "needs_lemma query collection \<longleftrightarrow> filter (is_exact_match query) (snd collection) = []"

text \<open>Two searchers that differ at most in what was logged.\<close>

definition same_index :: "DictionarySearcher \<Rightarrow> DictionarySearcher \<Rightarrow> bool" where
  "same_index S T \<longleftrightarrow>
     termDictionaries S = termDictionaries T \<and> readingIndex S = readingIndex T \<and>
     isReady S = isReady T \<and> objects S = objects T"

section \<open>Sample data\<close>

text \<open>
  A term bank file with one entry, a file that is not JSON, a token whose basic form is
  the empty string, and library functions that are enough to run the loaders on the two
  files (\<open>JSON.parse\<close> on their contents, \<open>path.join\<close> and \<open>path.extname\<close> on their
  names).
\<close>

definition sample_json :: jsstring where
  \<open>sample_json = ascii ''[["neko","yomi"," n  vs ","",0,"cat",0,""]]''\<close>

definition sample_entry :: jsval where
  "sample_entry = JArr [JStr (ascii ''neko''), JStr (ascii ''yomi''), JStr (ascii '' n  vs ''),
     JStr [], JNum 0, JStr (ascii ''cat''), JNum 0, JStr []]"

definition bad_json :: jsstring where
  "bad_json = ascii ''[[''"

definition kana_json :: jsstring where
  \<open>kana_json = ascii ''[["kana","kana","","",0,"syllabary",0,""],["inu","ken","n","",0,"dog",0,""]]''\<close>

definition kana_entry :: jsval where
  "kana_entry = JArr [JStr (ascii ''kana''), JStr (ascii ''kana''), JStr [],
     JStr [], JNum 0, JStr (ascii ''syllabary''), JNum 0, JStr []]"

definition inu_entry :: jsval where
  "inu_entry = JArr [JStr (ascii ''inu''), JStr (ascii ''ken''), JStr (ascii ''n''),
     JStr [], JNum 0, JStr (ascii ''dog''), JNum 0, JStr []]"

definition sample_lib :: js_lib where
  "sample_lib = \<lparr>
     JSON_parse = (\<lambda>data. if data = sample_json then Some (JArr [sample_entry])
       else if data = kana_json then Some (JArr [kana_entry, inu_entry]) else None),
     JSON_stringify = (\<lambda>v. ascii ''{}''),
     String_of = (\<lambda>v. ascii ''undefined''),
     path_join = (\<lambda>a b. if a \<noteq> [] \<and> last a = 0x2F then a @ b else a @ [0x2F] @ b),
     path_extname = (\<lambda>name. drop (length name - 5) name),
     toLowerCase = map (\<lambda>c. if 0x41 \<le> c \<and> c \<le> 0x5A then c + 0x20 else c) \<rparr>"

definition sample_files :: "fs_file list" where
  "sample_files = [File (ascii ''bad.json'') (Inr bad_json), File (ascii ''good.json'') (Inr sample_json)]"

definition sample_fs :: "error + fs_collection list" where
  "sample_fs = Inr [Collection (ascii ''jmdict'') (Inr True) (Inr sample_files)]"

text \<open>
  Two collections and a plain file beside them: the first collection as above, the second
  with a term bank of two entries, the first of which has its term as its reading.
\<close>

definition two_collections :: "error + fs_collection list" where
  "two_collections = Inr [
     Collection (ascii ''jmdict'') (Inr True) (Inr sample_files),
     Collection (ascii ''readme.md'') (Inr False) (Inl IOError),
     Collection (ascii ''kanadic'') (Inr True)
       (Inr [File (ascii ''index.txt'') (Inr bad_json), File (ascii ''kana.json'') (Inr kana_json)])]"

text \<open>
  A token with the basic form \<open>neko\<close>, an entry in kana only (its reading is the empty
  string, as the term banks write it), and a map of three collections.
\<close>

definition neko_token :: KuromojiToken where
  "neko_token = \<lparr> basic_form = ascii ''neko'', pos = [], pos_detail_1 = [], pos_detail_2 = [],
     pos_detail_3 = [], conjugated_type = [], conjugated_form = [], token_reading = [],
     pronunciation = [], surface_form = ascii ''nekos'' \<rparr>"

definition hira_entry :: jsval where
  "hira_entry = JArr [JStr (ascii ''nekos''), JStr [], JStr [],
     JStr [], JNum 0, JStr (ascii ''cats''), JNum 0, JStr []]"

definition sample_map :: DictionaryMap where
  "sample_map = [(ascii ''jmdict'', [sample_entry]), (ascii ''kanadic'', [hira_entry, sample_entry]),
     (ascii ''names'', [sample_entry])]"

section \<open>Properties of the string operations\<close>

lemma js_split_nonempty: "js_split sep s \<noteq> []"
  by (induction s) (auto split: list.splits)

lemma js_join_split: "js_join [sep] (js_split sep s) = s"
proof (induction s)
  case Nil
  then show ?case by simp
next
  case (Cons c cs)
  obtain l ls where r: "js_split sep cs = l # ls"
    using js_split_nonempty [of sep cs] by (cases "js_split sep cs") auto
  from Cons r show ?case by (cases ls) auto
qed

lemma js_split_no_sep: "t \<in> set (js_split sep s) \<Longrightarrow> sep \<notin> set t"
  by (induction s arbitrary: t) (auto split: if_splits list.splits)

lemma concat_js_split: "concat (js_split sep s) = filter (\<lambda>c. c \<noteq> sep) s"
  by (induction s) (auto split: list.splits)

lemma trim_no_leading_ws: "trim s = [] \<or> \<not> is_ws (hd (trim s))"
proof (cases "dropWhile is_ws s")
  case Nil
  show ?thesis unfolding trim_def Nil by simp
next
  case (Cons x u)
  then have x: "\<not> is_ws x"
    using hd_dropWhile [of is_ws s] by auto
  have "trim s = rev (dropWhile is_ws (rev u @ [x]))"
    by (simp add: trim_def Cons)
  also have "\<dots> = x # rev (dropWhile is_ws (rev u))"
    using x by (simp add: dropWhile_append3)
  finally show ?thesis using x by simp
qed

lemma trim_no_trailing_ws: "trim s = [] \<or> \<not> is_ws (last (trim s))"
proof (cases "dropWhile is_ws (rev (dropWhile is_ws s))")
  case Nil
  show ?thesis unfolding trim_def Nil by simp
next
  case (Cons x u)
  then have "\<not> is_ws x"
    using hd_dropWhile [of is_ws "rev (dropWhile is_ws s)"] by auto
  then show ?thesis by (simp add: trim_def Cons)
qed

lemma trim_idem: "trim (trim s) = trim s"
proof (cases "trim s")
  case Nil
  show ?thesis unfolding Nil by (simp add: trim_def)
next
  case (Cons x u)
  from trim_no_leading_ws [of s] Cons have h: "\<not> is_ws x" by simp
  from trim_no_trailing_ws [of s] Cons have l: "\<not> is_ws (last (x # u))" by simp
  have a: "dropWhile is_ws (trim s) = trim s"
    unfolding Cons using h by simp
  have "hd (rev (x # u)) = last (x # u)" by (rule hd_rev)
  with l have "dropWhile is_ws (rev (x # u)) = rev (x # u)"
    by (cases "rev (x # u)") auto
  then have b: "dropWhile is_ws (rev (trim s)) = rev (trim s)"
    unfolding Cons .
  have "trim (trim s) = rev (dropWhile is_ws (rev (dropWhile is_ws (trim s))))"
    by (rule trim_def)
  also have "\<dots> = rev (dropWhile is_ws (rev (trim s)))" by (simp only: a)
  also have "\<dots> = rev (rev (trim s))" by (simp only: b)
  finally show ?thesis by simp
qed

section \<open>Properties of the content flattener\<close>

text \<open>The two versions of \<open>logContent\<close> log the same lines.\<close>

lemma logContent_js_eq: "logContent_js d indent = logContent d indent"
proof (induction d indent rule: logContent.induct)
  case (1 items indent)
  have "(case item of JStr s \<Rightarrow> log_lines s indent | _ \<Rightarrow> logContent_js item indent) =
      (case item of JStr s \<Rightarrow> log_lines s indent | JArr xs \<Rightarrow> logContent item indent
        | JObj ps \<Rightarrow> logContent item indent | _ \<Rightarrow> [])" if "item \<in> set items" for item
  proof (cases item)
    case (JArr xs)
    with "1.IH"(1) [OF that JArr] show ?thesis by simp
  next
    case (JObj ps)
    with "1.IH"(2) [OF that JObj] show ?thesis by simp
  qed simp_all
  then show ?case by (simp cong: map_cong)
next
  case (2 ps indent)
  define content where "content = get_prop ps (ascii ''content'')"
  show ?case
  proof (cases "truthy content")
    case False
    then show ?thesis by (simp add: content_def)
  next
    case True
    show ?thesis
    proof (cases content)
      case (JArr xs)
      with "2.IH"(5) [OF content_def True JArr] True show ?thesis
        by (simp add: content_def [symmetric])
    next
      case (JObj qs)
      with "2.IH"(6) [OF content_def True JObj] True show ?thesis
        by (simp add: content_def [symmetric])
    qed (use True in \<open>simp_all add: content_def [symmetric]\<close>)
  qed
qed simp_all


lemma ascii_abc: "ascii ''a\<newline>b\<newline>\<newline>c'' = [0x61, NL, 0x62, NL, NL, 0x63]"
  by (simp add: ascii_def NL_def)

lemma log_lines_abc:
  "log_lines [0x61, NL, 0x62, NL, NL, 0x63] [] = [[SP, 0x61], [SP, 0x62], [SP, 0x63]]"
  by (simp add: log_lines_def NL_def SP_def trim_def is_ws_def)

text \<open>
  C7, as stated: flattening a Text splits it on newline, drops the lines that are empty
  after trimming and emits each remaining line trimmed and prefixed with the indent, so
  that the text \<open>a\nb\n\nc\<close> yields exactly the lines \<open>a\<close>, \<open>b\<close>, \<open>c\<close>.
  The code logs \<open>`${indent} ${line.trim()}`\<close>: at the empty indent the three lines
  are \<open>" a"\<close>, \<open>" b"\<close>, \<open>" c"\<close>, each with the separating space.
\<close>

theorem C7_text_counterexample:
  "logContent (JStr (ascii ''a\<newline>b\<newline>\<newline>c'')) [] \<noteq> [ascii ''a'', ascii ''b'', ascii ''c'']"
  by (simp add: ascii_abc log_lines_abc) (simp add: ascii_def SP_def)

text \<open>
  C7, amended: flattening a Text splits it on newline (the pieces contain no newline and
  joined by newlines give the text back), drops the pieces that are empty after trimming,
  and logs each remaining piece trimmed, after the indent and one space; the text
  \<open>a\nb\n\nc\<close> yields exactly the three lines \<open>" a"\<close>, \<open>" b"\<close>, \<open>" c"\<close> in
  that order.
\<close>

theorem C7_text:
  "logContent (JStr s) indent =
     map (\<lambda>line. indent @ [SP] @ trim line) (filter (\<lambda>line. trim line \<noteq> []) (js_split NL s))
   \<and> js_join [NL] (js_split NL s) = s
   \<and> (\<forall>line\<in>set (js_split NL s). NL \<notin> set line)
   \<and> logContent (JStr (ascii ''a\<newline>b\<newline>\<newline>c'')) [] =
       [SP # ascii ''a'', SP # ascii ''b'', SP # ascii ''c'']"
proof -
  have "logContent (JStr (ascii ''a\<newline>b\<newline>\<newline>c'')) [] =
      [SP # ascii ''a'', SP # ascii ''b'', SP # ascii ''c'']"
    by (simp add: ascii_abc log_lines_abc) (simp add: ascii_def)
  then show ?thesis
    by (simp add: log_lines_def js_join_split js_split_no_sep)
qed

theorem C7_text_witness:
  "ascii ''b'' \<in> set (js_split NL (ascii ''a\<newline>b'')) \<and> NL \<notin> set (ascii ''b'')
   \<and> logContent (JStr (ascii ''a\<newline>b'')) [SP, SP] = [[SP, SP, SP] @ ascii ''a'', [SP, SP, SP] @ ascii ''b'']"
  using C7_text [of "ascii ''a\<newline>b''" "[SP, SP]"]
  by (simp add: ascii_def NL_def SP_def trim_def is_ws_def)

text \<open>
  C8: for a Node (an object), if its \<open>content\<close> is a non-empty string the flattener logs
  that text, trimmed, at the current indent; if it is an array or another object it
  recurses with the indent extended by exactly two spaces; if it is absent or falsy it
  logs nothing. So \<open>{"content":{"content":["line1","line2"]}}\<close> yields \<open>line1\<close> and
  \<open>line2\<close>, both at one and the same deeper indent (two levels, four spaces).
\<close>

theorem C8_node:
  "(get_prop ps (ascii ''content'') = JStr s \<and> s \<noteq> [] \<longrightarrow>
      logContent (JObj ps) indent = [indent @ [SP] @ trim s])
   \<and> (get_prop ps (ascii ''content'') = JArr xs \<longrightarrow>
      logContent (JObj ps) indent = logContent (JArr xs) (indent @ [SP, SP]))
   \<and> (get_prop ps (ascii ''content'') = JObj qs \<longrightarrow>
      logContent (JObj ps) indent = logContent (JObj qs) (indent @ [SP, SP]))
   \<and> (\<not> truthy (get_prop ps (ascii ''content'')) \<longrightarrow> logContent (JObj ps) indent = [])
   \<and> (ascii ''content'' \<notin> fst ` set ps \<longrightarrow> logContent (JObj ps) indent = [])
   \<and> logContent
        (JObj [(ascii ''content'',
           JObj [(ascii ''content'', JArr [JStr (ascii ''line1''), JStr (ascii ''line2'')])])]) [] =
       [[SP, SP, SP, SP] @ [SP] @ ascii ''line1'', [SP, SP, SP, SP] @ [SP] @ ascii ''line2'']"
proof -
  have absent: "get_prop ps (ascii ''content'') = JUndefined" if "ascii ''content'' \<notin> fst ` set ps"
    using that by (simp add: get_prop_def map_of_eq_None_iff [THEN iffD2])
  have ex: "logContent
        (JObj [(ascii ''content'',
           JObj [(ascii ''content'', JArr [JStr (ascii ''line1''), JStr (ascii ''line2'')])])]) [] =
       [[SP, SP, SP, SP] @ [SP] @ ascii ''line1'', [SP, SP, SP, SP] @ [SP] @ ascii ''line2'']"
    by (simp add: log_lines_def NL_def SP_def trim_def is_ws_def ascii_def get_prop_def)
  show ?thesis
    using absent ex by simp
qed

theorem C8_node_witness:
  "logContent (JObj [(ascii ''content'', JStr (ascii '' hi ''))]) [SP, SP] = [[SP, SP] @ [SP] @ ascii ''hi'']
   \<and> logContent (JObj [(ascii ''content'', JArr [JStr (ascii ''x'')])]) [] = [[SP, SP] @ [SP] @ ascii ''x'']
   \<and> logContent (JObj [(ascii ''content'', JObj [(ascii ''content'', JStr (ascii ''y''))])]) [] =
       [[SP, SP] @ [SP] @ ascii ''y'']
   \<and> logContent (JObj [(ascii ''content'', JStr [])]) [] = []
   \<and> logContent (JObj [(ascii ''tag'', JStr (ascii ''div''))]) [] = []"
  using C8_node [of "[(ascii ''content'', JStr (ascii '' hi ''))]" "ascii '' hi ''" "[SP, SP]"]
    C8_node [of "[(ascii ''content'', JArr [JStr (ascii ''x'')])]" _ _ "[JStr (ascii ''x'')]"]
    C8_node [of "[(ascii ''content'', JObj [(ascii ''content'', JStr (ascii ''y''))])]" _ "[]" _
      "[(ascii ''content'', JStr (ascii ''y''))]"]
    C8_node [of "[(ascii ''content'', JStr [])]" _ "[]"]
    C8_node [of "[(ascii ''tag'', JStr (ascii ''div''))]" _ "[]"]
  by (simp add: log_lines_def NL_def SP_def trim_def is_ws_def ascii_def get_prop_def)













section \<open>Properties of the dictionary index\<close>

lemma bucket_push_bucket:
  "bucket (push_bucket m k r) k' = bucket m k' @ (if k' = k then [r] else [])"
  by (auto simp: bucket_def push_bucket_def Let_def split: option.splits)

lemma filter_upt_snoc:
  "filter (\<lambda>r. f ((xs @ [x]) ! r) = k) [0..<length xs] = filter (\<lambda>r. f (xs ! r) = k) [0..<length xs]"
  by (rule filter_cong) (auto simp: nth_append)

lemma index_inv_constructor: "index_inv constructor"
  by (simp add: index_inv_def constructor_def bucket_def)

lemma index_inv_index_entry: "index_inv S \<Longrightarrow> index_inv (index_entry e S)"
  by (simp add: index_inv_def index_entry_def Let_def bucket_push_bucket filter_upt_snoc)

lemma index_inv_load_entries:
  "index_inv S \<Longrightarrow> index_inv (snd (load_entries L es S))"
  by (induction es arbitrary: S) (auto simp: index_inv_index_entry split: sum.splits)

lemma index_inv_console [simp]: "index_inv (S\<lparr>console := c\<rparr>) = index_inv S"
  by (simp add: index_inv_def)

lemma index_inv_load_file:
  "index_inv S \<Longrightarrow> index_inv (snd (load_file L p f S))"
  by (auto simp: load_file_def Let_def index_inv_load_entries split: sum.splits option.splits)

lemma index_inv_load_files:
  "index_inv S \<Longrightarrow> index_inv (snd (load_files L p fs S))"
proof (induction fs arbitrary: S)
  case Nil
  then show ?case by simp
next
  case (Cons f fs)
  from Cons.prems have "index_inv (snd (load_file L p f S))"
    by (rule index_inv_load_file)
  with Cons.IH show ?case
    by (cases "load_file L p f S") (auto split: option.splits)
qed

lemma index_inv_load_collection:
  "index_inv S \<Longrightarrow> index_inv (snd (load_collection L d c S))"
  by (auto simp: load_collection_def Let_def index_inv_load_files split: sum.splits)

lemma index_inv_load_collections:
  "index_inv S \<Longrightarrow> index_inv (snd (load_collections L d cs S))"
proof (induction cs arbitrary: S)
  case Nil
  then show ?case by simp
next
  case (Cons c cs)
  from Cons.prems have "index_inv (snd (load_collection L d c S))"
    by (rule index_inv_load_collection)
  with Cons.IH show ?case
    by (cases "load_collection L d c S") (auto split: option.splits)
qed

lemma index_inv_isReady [simp]: "index_inv (S\<lparr>isReady := b\<rparr>) = index_inv S"
  by (simp add: index_inv_def)

lemma index_inv_loadDictionaries:
  "index_inv S \<Longrightarrow> index_inv (snd (loadDictionaries L d fs S))"
proof (cases fs)
  case (Inl e)
  assume "index_inv S"
  with Inl show ?thesis by (simp add: loadDictionaries_def)
next
  case (Inr cs)
  assume "index_inv S"
  then have "index_inv (snd (load_collections L d cs S))"
    by (rule index_inv_load_collections)
  with Inr show ?thesis
    by (cases "load_collections L d cs S") (auto simp: loadDictionaries_def split: option.splits)
qed

lemma set_foldl_Set_add: "set (foldl Set_add acc xs) = set acc \<union> set xs"
  by (induction xs arbitrary: acc) (auto simp: Set_add_def)

lemma distinct_foldl_Set_add: "distinct acc \<Longrightarrow> distinct (foldl Set_add acc xs)"
  by (induction xs arbitrary: acc) (auto simp: Set_add_def)

lemma set_new_Set: "set (new_Set xs) = set xs"
  by (simp add: new_Set_def set_foldl_Set_add)

lemma distinct_new_Set: "distinct (new_Set xs)"
  by (simp add: new_Set_def distinct_foldl_Set_add)

lemma isReady_loadDictionaries:
  "loadDictionaries L d fs S = (None, S') \<Longrightarrow> isReady S'"
  by (auto simp: loadDictionaries_def split: sum.splits prod.splits option.splits)

lemma findTerm_ready:
  "isReady S \<Longrightarrow> findTerm S key =
     Inr (new_Set (get_or_empty (termDictionaries S) key @ get_or_empty (readingIndex S) key))"
  by (simp add: findTerm_def)

lemma get_or_empty_bucket: "get_or_empty m key = bucket m (JStr key)"
  by (simp add: get_or_empty_def bucket_def)

lemma isReady_load_entries: "isReady (snd (load_entries L es S)) = isReady S"
  by (induction es arbitrary: S) (auto simp: index_entry_def Let_def split: sum.splits)

lemma isReady_load_file: "isReady (snd (load_file L p f S)) = isReady S"
  by (auto simp: load_file_def Let_def isReady_load_entries split: sum.splits option.splits)

lemma isReady_load_files: "isReady (snd (load_files L p fs S)) = isReady S"
proof (induction fs arbitrary: S)
  case Nil
  show ?case by simp
next
  case (Cons f fs)
  have "isReady (snd (load_file L p f S)) = isReady S"
    by (rule isReady_load_file)
  with Cons.IH show ?case
    by (cases "load_file L p f S") (auto split: option.splits)
qed

lemma isReady_load_collection: "isReady (snd (load_collection L d c S)) = isReady S"
  by (auto simp: load_collection_def Let_def isReady_load_files split: sum.splits)

lemma isReady_load_collections: "isReady (snd (load_collections L d cs S)) = isReady S"
proof (induction cs arbitrary: S)
  case Nil
  show ?case by simp
next
  case (Cons c cs)
  have "isReady (snd (load_collection L d c S)) = isReady S"
    by (rule isReady_load_collection)
  with Cons.IH show ?case
    by (cases "load_collection L d c S") (auto split: option.splits)
qed

lemma isReady_loadDictionaries_failed:
  assumes "loadDictionaries L d fs S = (Some e, S')"
  shows "isReady S' = isReady S"
proof (cases fs)
  case (Inl x)
  with assms show ?thesis by (auto simp: loadDictionaries_def)
next
  case (Inr cs)
  have "isReady (snd (load_collections L d cs S)) = isReady S"
    by (rule isReady_load_collections)
  with assms Inr show ?thesis
    by (cases "load_collections L d cs S") (auto simp: loadDictionaries_def split: option.splits)
qed

text \<open>
  A load of entries that completes has made one object from each raw entry, in order.
\<close>

lemma load_entries_objects:
  "load_entries L entries S = (None, S') \<Longrightarrow>
   map Inr (objects S') = map Inr (objects S) @ map (formatEntry L) entries"
proof (induction entries arbitrary: S)
  case Nil
  then show ?case by simp
next
  case (Cons entry entries)
  from Cons.prems obtain e where e: "formatEntry L entry = Inr e"
    and l: "load_entries L entries (index_entry e S) = (None, S')"
    by (auto split: sum.splits)
  from Cons.IH [OF l] e show ?case
    by (simp add: index_entry_def Let_def)
qed

lemma load_file_objects:
  "load_file L p file S = (None, S') \<Longrightarrow>
   map Inr (objects S') = map Inr (objects S) @ map (formatEntry L) (file_entries L file)"
  by (auto simp: load_file_def file_entries_def Let_def load_entries_objects
      split: sum.splits option.splits)

lemma load_files_objects:
  "load_files L p files S = (None, S') \<Longrightarrow>
   map Inr (objects S') = map Inr (objects S) @ map (formatEntry L) (concat (map (file_entries L) files))"
proof (induction files arbitrary: S)
  case Nil
  then show ?case by simp
next
  case (Cons f files)
  from Cons.prems obtain S1 where f: "load_file L p f S = (None, S1)"
    and l: "load_files L p files S1 = (None, S')"
    by (auto split: prod.splits option.splits)
  from load_file_objects [OF f] Cons.IH [OF l] show ?case by simp
qed

lemma load_collection_objects:
  "load_collection L d c S = (None, S') \<Longrightarrow>
   map Inr (objects S') = map Inr (objects S) @ map (formatEntry L) (collection_entries L c)"
  by (auto simp: load_collection_def collection_entries_def Let_def load_files_objects
      split: sum.splits if_splits)

lemma load_collections_objects:
  "load_collections L d cs S = (None, S') \<Longrightarrow>
   map Inr (objects S') = map Inr (objects S) @ map (formatEntry L) (all_entries L cs)"
proof (induction cs arbitrary: S)
  case Nil
  then show ?case by (simp add: all_entries_def)
next
  case (Cons c cs)
  from Cons.prems obtain S1 where f: "load_collection L d c S = (None, S1)"
    and l: "load_collections L d cs S1 = (None, S')"
    by (auto split: prod.splits option.splits)
  from load_collection_objects [OF f] Cons.IH [OF l] show ?case
    by (simp add: all_entries_def)
qed

lemma loadDictionaries_objects:
  assumes "loadDictionaries L d fs constructor = (None, S)"
  shows "\<exists>collections. fs = Inr collections \<and>
    map Inr (objects S) = map (formatEntry L) (all_entries L collections)"
proof (cases fs)
  case (Inl e)
  with assms show ?thesis by (simp add: loadDictionaries_def)
next
  case (Inr cs)
  with assms obtain S1 where l: "load_collections L d cs constructor = (None, S1)"
    and S: "objects S = objects S1"
    by (auto simp: loadDictionaries_def split: prod.splits option.splits)
  from load_collections_objects [OF l] S Inr show ?thesis
    by (simp add: constructor_def)
qed

lemmas sample_defs = loadDictionaries_def sample_fs_def sample_files_def load_collection_def
  load_file_def sample_lib_def Let_def ascii_def sample_json_def bad_json_def
  sample_entry_def formatEntry_def and_then_def array_get_def format_tags_def js_or_def
  index_entry_def constructor_def SP_def findTerm_def get_or_empty_def new_Set_def Set_add_def
  push_bucket_def kana_json_def kana_entry_def inu_entry_def

lemmas two_defs = two_collections_def sample_defs collection_entries_def file_entries_def
  all_entries_def

text \<open>
  C1: after \<open>loadDictionaries\<close> has completed on a new searcher, the entries of the
  store are the raw entries of all the files, normalized, in order: every entry of every
  file is there. The term bucket (the reading bucket) of a key holds the references of
  the entries with that term (that reading), and \<open>findTerm\<close> returns the term bucket
  followed by the reading bucket with duplicates (the same reference) removed: its
  references are exactly those of the entries of the files whose term or whose reading
  is the key, each once; when the key is in neither map the result is the empty array,
  not an error.
\<close>

theorem C1_findTerm:
  assumes "loadDictionaries L collectionsDir fs constructor = (None, S)"
  shows "\<exists>collections rs. fs = Inr collections
     \<and> map Inr (objects S) = map (formatEntry L) (all_entries L collections)
     \<and> findTerm S key = Inr rs
     \<and> rs = new_Set (get_or_empty (termDictionaries S) key @ get_or_empty (readingIndex S) key)
     \<and> get_or_empty (termDictionaries S) key =
         filter (\<lambda>r. term' (objects S ! r) = JStr key) [0..<length (objects S)]
     \<and> get_or_empty (readingIndex S) key =
         filter (\<lambda>r. reading (objects S ! r) = JStr key) [0..<length (objects S)]
     \<and> distinct rs
     \<and> set rs = set (get_or_empty (termDictionaries S) key) \<union> set (get_or_empty (readingIndex S) key)
     \<and> set rs = {r. r < length (objects S) \<and>
          (term' (objects S ! r) = JStr key \<or> reading (objects S ! r) = JStr key)}
     \<and> set rs = {r. r < length (all_entries L collections) \<and>
          (\<exists>e. formatEntry L (all_entries L collections ! r) = Inr e \<and>
             (term' e = JStr key \<or> reading e = JStr key))}
     \<and> (termDictionaries S (JStr key) = None \<and> readingIndex S (JStr key) = None \<longrightarrow> rs = [])"
proof -
  let ?tb = "get_or_empty (termDictionaries S) key"
  let ?rb = "get_or_empty (readingIndex S) key"
  from loadDictionaries_objects [OF assms] obtain collections
    where fs: "fs = Inr collections"
      and objs: "map Inr (objects S) = map (formatEntry L) (all_entries L collections)"
    by blast
  from objs have len: "length (objects S) = length (all_entries L collections)"
    by (metis length_map)
  have nth: "formatEntry L (all_entries L collections ! r) = Inr (objects S ! r)"
    if "r < length (objects S)" for r
  proof -
    from that len have "formatEntry L (all_entries L collections ! r) =
        map (formatEntry L) (all_entries L collections) ! r" by simp
    also have "\<dots> = map Inr (objects S) ! r" by (simp only: objs)
    also from that have "\<dots> = Inr (objects S ! r)" by simp
    finally show ?thesis .
  qed
  have ready: "isReady S"
    using assms by (rule isReady_loadDictionaries)
  have "index_inv (snd (loadDictionaries L collectionsDir fs constructor))"
    using index_inv_constructor by (rule index_inv_loadDictionaries)
  then have inv: "index_inv S"
    by (simp add: assms)
  have tb: "?tb = filter (\<lambda>r. term' (objects S ! r) = JStr key) [0..<length (objects S)]"
    using inv by (simp add: index_inv_def get_or_empty_bucket)
  have rb: "?rb = filter (\<lambda>r. reading (objects S ! r) = JStr key) [0..<length (objects S)]"
    using inv by (simp add: index_inv_def get_or_empty_bucket)
  have a: "findTerm S key = Inr (new_Set (?tb @ ?rb))"
    using ready by (rule findTerm_ready)
  have b: "distinct (new_Set (?tb @ ?rb))"
    by (rule distinct_new_Set)
  have c: "set (new_Set (?tb @ ?rb)) = set ?tb \<union> set ?rb"
    by (simp add: set_new_Set)
  have d: "set ?tb \<union> set ?rb = {r. r < length (objects S) \<and>
          (term' (objects S ! r) = JStr key \<or> reading (objects S ! r) = JStr key)}"
    unfolding tb rb by auto
  have d': "{r. r < length (objects S) \<and>
          (term' (objects S ! r) = JStr key \<or> reading (objects S ! r) = JStr key)} =
      {r. r < length (all_entries L collections) \<and>
          (\<exists>e. formatEntry L (all_entries L collections ! r) = Inr e \<and>
             (term' e = JStr key \<or> reading e = JStr key))}"
    using nth len by auto
  have e: "new_Set (?tb @ ?rb) = []"
    if "termDictionaries S (JStr key) = None \<and> readingIndex S (JStr key) = None"
    using that by (simp add: get_or_empty_def new_Set_def)
  show ?thesis
  proof (intro exI [of _ collections] exI [of _ "new_Set (?tb @ ?rb)"] conjI)
    show "set (new_Set (?tb @ ?rb)) = {r. r < length (all_entries L collections) \<and>
          (\<exists>e. formatEntry L (all_entries L collections ! r) = Inr e \<and>
             (term' e = JStr key \<or> reading e = JStr key))}"
      using c d d' by simp
    show "set (new_Set (?tb @ ?rb)) = {r. r < length (objects S) \<and>
          (term' (objects S ! r) = JStr key \<or> reading (objects S ! r) = JStr key)}"
      using c d by simp
  qed (use fs objs a b c tb rb e in simp_all)
qed

theorem C1_findTerm_witness:
  "fst (loadDictionaries sample_lib (ascii ''dictionaries/'') two_collections constructor) = None
   \<and> all_entries sample_lib (projr two_collections) = [sample_entry, kana_entry, inu_entry]
   \<and> get_or_empty (termDictionaries
        (snd (loadDictionaries sample_lib (ascii ''dictionaries/'') two_collections constructor)))
        (ascii ''kana'') = [1]
   \<and> get_or_empty (readingIndex
        (snd (loadDictionaries sample_lib (ascii ''dictionaries/'') two_collections constructor)))
        (ascii ''kana'') = [1]
   \<and> findTerm (snd (loadDictionaries sample_lib (ascii ''dictionaries/'') two_collections constructor))
        (ascii ''kana'') = Inr [1]
   \<and> findTerm (snd (loadDictionaries sample_lib (ascii ''dictionaries/'') two_collections constructor))
        (ascii ''ken'') = Inr [2]
   \<and> findTerm (snd (loadDictionaries sample_lib (ascii ''dictionaries/'') two_collections constructor))
        (ascii ''neko'') = Inr [0]
   \<and> findTerm (snd (loadDictionaries sample_lib (ascii ''dictionaries/'') two_collections constructor))
        (ascii ''tori'') = Inr []"
proof -
  let ?r = "loadDictionaries sample_lib (ascii ''dictionaries/'') two_collections constructor"
  have ok: "fst ?r = None"
    by (simp add: two_defs)
  then have eq: "?r = (None, snd ?r)"
    by (simp add: prod_eq_iff)
  have all: "all_entries sample_lib (projr two_collections) = [sample_entry, kana_entry, inu_entry]"
    by (simp add: two_collections_def all_entries_def collection_entries_def file_entries_def
      sample_files_def sample_lib_def ascii_def sample_json_def bad_json_def kana_json_def)
  have tb: "get_or_empty (termDictionaries (snd ?r)) (ascii ''kana'') = [1]"
    by (simp add: two_defs)
  have rb: "get_or_empty (readingIndex (snd ?r)) (ascii ''kana'') = [1]"
    by (simp add: two_defs)
  from C1_findTerm [OF eq, of "ascii ''kana''"] tb rb
  have k: "findTerm (snd ?r) (ascii ''kana'') = Inr [1]"
    by (auto simp: new_Set_def Set_add_def)
  have n: "findTerm (snd ?r) (ascii ''ken'') = Inr [2]"
    by (simp add: two_defs)
  have m: "findTerm (snd ?r) (ascii ''neko'') = Inr [0]"
    by (simp add: two_defs)
  have i: "findTerm (snd ?r) (ascii ''tori'') = Inr []"
    by (simp add: two_defs)
  from ok all tb rb k n m i show ?thesis
    by simp
qed

text \<open>
  C5: \<open>findTerm\<close> on a searcher that is not ready (the new searcher, every state the
  loops of the load pass through, and the searcher left by a load that threw) throws the
  error \<open>Dictionaries not loaded\<close>, which is not the empty result; after a load that
  completed, \<open>findTerm\<close> returns a result.
\<close>

theorem C5_not_ready:
  "findTerm constructor key = Inl NotLoaded
   \<and> (\<not> isReady S \<longrightarrow>
        findTerm S key = Inl NotLoaded \<and> findTerm S key \<noteq> Inr []
        \<and> \<not> isReady (snd (load_entries L entries S))
        \<and> \<not> isReady (snd (load_files L collectionPath files S))
        \<and> \<not> isReady (snd (load_collections L collectionsDir collections S)))
   \<and> (\<forall>e S'. loadDictionaries L collectionsDir fs constructor = (Some e, S') \<longrightarrow>
        findTerm S' key = Inl NotLoaded)
   \<and> (\<forall>S'. loadDictionaries L collectionsDir fs constructor = (None, S') \<longrightarrow>
        (\<exists>rs. findTerm S' key = Inr rs))"
proof -
  have a: "findTerm constructor key = Inl NotLoaded"
    by (simp add: findTerm_def constructor_def)
  have b: "findTerm S key = Inl NotLoaded \<and> findTerm S key \<noteq> Inr []
        \<and> \<not> isReady (snd (load_entries L entries S))
        \<and> \<not> isReady (snd (load_files L collectionPath files S))
        \<and> \<not> isReady (snd (load_collections L collectionsDir collections S))" if "\<not> isReady S"
    using that by (simp add: findTerm_def isReady_load_entries isReady_load_files isReady_load_collections)
  have c: "findTerm S' key = Inl NotLoaded"
    if "loadDictionaries L collectionsDir fs constructor = (Some e, S')" for e S'
  proof -
    from that have "isReady S' = isReady constructor"
      by (rule isReady_loadDictionaries_failed)
    then show ?thesis by (simp add: findTerm_def constructor_def)
  qed
  have d: "\<exists>rs. findTerm S' key = Inr rs"
    if "loadDictionaries L collectionsDir fs constructor = (None, S')" for S'
    using isReady_loadDictionaries [OF that] by (simp add: findTerm_def)
  from a b c d show ?thesis by blast
qed

theorem C5_not_ready_witness:
  "\<not> isReady constructor
   \<and> findTerm constructor (ascii ''neko'') = Inl NotLoaded
   \<and> (\<exists>S'. loadDictionaries sample_lib (ascii ''dictionaries/'') (Inl IOError) constructor = (Some IOError, S')
        \<and> findTerm S' (ascii ''neko'') = Inl NotLoaded)
   \<and> (\<exists>S'. loadDictionaries sample_lib (ascii ''dictionaries/'') (Inr []) constructor = (None, S')
        \<and> findTerm S' (ascii ''neko'') = Inr [])"
proof -
  let ?f = "constructor\<lparr>console := console constructor @ [ErrorLoadingDictionaries IOError]\<rparr>"
  let ?g = "constructor\<lparr>isReady := True\<rparr>"
  note t = C5_not_ready [where key = "ascii ''neko''" and S = constructor]
  have nr: "\<not> isReady constructor"
    by (simp add: constructor_def)
  have f: "loadDictionaries sample_lib (ascii ''dictionaries/'') (Inl IOError) constructor = (Some IOError, ?f)"
    by (simp add: loadDictionaries_def)
  have g: "loadDictionaries sample_lib (ascii ''dictionaries/'') (Inr []) constructor = (None, ?g)"
    by (simp add: loadDictionaries_def)
  from C5_not_ready [where key = "ascii ''neko''" and L = sample_lib
      and collectionsDir = "ascii ''dictionaries/''" and fs = "Inl IOError"] f
  have f': "findTerm ?f (ascii ''neko'') = Inl NotLoaded"
    by blast
  have g': "findTerm ?g (ascii ''neko'') = Inr []"
    by (simp add: findTerm_def constructor_def get_or_empty_def new_Set_def)
  from t nr have "findTerm constructor (ascii ''neko'') = Inl NotLoaded"
    by blast
  with nr f f' g g' show ?thesis by blast
qed

section \<open>Properties of the entry normalizer\<close>

lemma concat_filter_nonempty: "concat (filter (\<lambda>t. t \<noteq> []) xs) = concat xs"
  by (induction xs) auto

lemma format_tags_string:
  "format_tags (JStr s) = Inr (filter (\<lambda>t. t \<noteq> []) (js_split SP s))"
  by (cases s) (simp_all add: format_tags_def js_or_def)

lemma format_tags_falsy:
  "\<not> truthy v \<Longrightarrow> format_tags v = Inr []"
  by (simp add: format_tags_def js_or_def)

lemma format_tags_TypeError:
  "truthy v \<Longrightarrow> \<forall>s. v \<noteq> JStr s \<Longrightarrow> format_tags v = Inl TypeError"
  by (cases v) (simp_all add: format_tags_def js_or_def)

lemma formatEntry_array:
  "format_tags (array_get xs 2) = Inr ts \<Longrightarrow>
   formatEntry L (JArr xs) = Inr \<lparr> term' = array_get xs 0, reading = array_get xs 1, tags = ts,
     rules = js_or (array_get xs 3) (JStr []), score = js_or (array_get xs 4) (JNum 0),
     definitions = (case array_get xs 5 of JArr ds \<Rightarrow> map (formatDefinition L) ds
                        | _ \<Rightarrow> [formatDefinition L (array_get xs 5)]),
     sequence = js_or (array_get xs 6) (JNum 0), termTags = js_or (array_get xs 7) (JStr []) \<rparr>"
  by (simp add: formatEntry_def and_then_def)

lemma formatEntry_TypeError_tags:
  "truthy (array_get xs 2) \<Longrightarrow> \<forall>s. array_get xs 2 \<noteq> JStr s \<Longrightarrow> formatEntry L (JArr xs) = Inl TypeError"
  by (simp add: formatEntry_def and_then_def format_tags_TypeError)

lemma formatEntry_null: "formatEntry L JNull = Inl TypeError"
  by (simp add: formatEntry_def and_then_def)

text \<open>
  C9: for every raw entry tuple, however short, whose tag position holds a string or
  nothing (or another falsy value), \<open>_formatEntry\<close> returns an entry and does not throw:
  \<open>tags\<close> is the tag string split on single spaces with the empty segments dropped (no
  tag is empty or contains a space, and the tags together are the tag string without its
  spaces), and \<open>rules\<close>, \<open>score\<close>, \<open>sequence\<close> and \<open>termTags\<close> are the
  value of the tuple when it is truthy, and \<open>''\<close> or \<open>0\<close> when it is absent or falsy.
\<close>

theorem C9_formatEntry:
  assumes "array_get xs 2 = JStr tagString \<or> (\<not> truthy (array_get xs 2) \<and> tagString = [])"
  shows "\<exists>e. formatEntry L (JArr xs) = Inr e
     \<and> term' e = array_get xs 0
     \<and> reading e = array_get xs 1
     \<and> tags e = filter (\<lambda>t. t \<noteq> []) (js_split SP tagString)
     \<and> (\<forall>t\<in>set (tags e). t \<noteq> [] \<and> SP \<notin> set t)
     \<and> concat (tags e) = filter (\<lambda>c. c \<noteq> SP) tagString
     \<and> rules e = (if truthy (array_get xs 3) then array_get xs 3 else JStr [])
     \<and> score e = (if truthy (array_get xs 4) then array_get xs 4 else JNum 0)
     \<and> sequence e = (if truthy (array_get xs 6) then array_get xs 6 else JNum 0)
     \<and> termTags e = (if truthy (array_get xs 7) then array_get xs 7 else JStr [])"
proof -
  let ?ts = "filter (\<lambda>t. t \<noteq> []) (js_split SP tagString)"
  have "format_tags (array_get xs 2) = Inr ?ts"
    using assms by (auto simp: format_tags_string format_tags_falsy)
  then have e: "formatEntry L (JArr xs) = Inr \<lparr> term' = array_get xs 0, reading = array_get xs 1,
     tags = ?ts,
     rules = js_or (array_get xs 3) (JStr []), score = js_or (array_get xs 4) (JNum 0),
     definitions = (case array_get xs 5 of JArr ds \<Rightarrow> map (formatDefinition L) ds
                        | _ \<Rightarrow> [formatDefinition L (array_get xs 5)]),
     sequence = js_or (array_get xs 6) (JNum 0), termTags = js_or (array_get xs 7) (JStr []) \<rparr>"
    by (rule formatEntry_array)
  have t1: "\<forall>t\<in>set ?ts. t \<noteq> [] \<and> SP \<notin> set t"
    using js_split_no_sep by auto
  have t2: "concat ?ts = filter (\<lambda>c. c \<noteq> SP) tagString"
    by (simp add: concat_filter_nonempty concat_js_split)
  show ?thesis
    unfolding e using t1 t2 by (simp add: js_or_def)
qed

theorem C9_formatEntry_witness:
  "(\<exists>e. formatEntry sample_lib sample_entry = Inr e
      \<and> tags e = [ascii ''n'', ascii ''vs''] \<and> rules e = JStr [] \<and> score e = JNum 0)
   \<and> (\<exists>e. formatEntry sample_lib (JArr [JStr (ascii ''neko'')]) = Inr e
      \<and> term' e = JStr (ascii ''neko'') \<and> reading e = JUndefined \<and> tags e = []
      \<and> rules e = JStr [] \<and> score e = JNum 0 \<and> sequence e = JNum 0 \<and> termTags e = JStr [])"
proof -
  let ?xs = "[JStr (ascii ''neko''), JStr (ascii ''yomi''), JStr (ascii '' n  vs ''),
     JStr [], JNum 0, JStr (ascii ''cat''), JNum 0, JStr []]"
  have a: "array_get ?xs 2 = JStr (ascii '' n  vs '') \<or> (\<not> truthy (array_get ?xs 2) \<and> ascii '' n  vs '' = [])"
    by (simp add: array_get_def)
  have b: "array_get [JStr (ascii ''neko'')] 2 = JStr [] \<or> (\<not> truthy (array_get [JStr (ascii ''neko'')] 2) \<and> [] = ([] :: jsstring))"
    by (simp add: array_get_def)
  have sp: "filter (\<lambda>t. t \<noteq> []) (js_split SP (ascii '' n  vs '')) = [ascii ''n'', ascii ''vs'']"
    by (simp add: ascii_def SP_def)
  from C9_formatEntry [OF a, of sample_lib] C9_formatEntry [OF b, of sample_lib] sp
  show ?thesis
    by (simp add: sample_entry_def array_get_def) blast
qed

section \<open>Properties of the lemma capability\<close>

lemma getBasicForm_empty:
  "tokenize searchTerm = [] \<Longrightarrow> getBasicForm tokenize searchTerm = searchTerm"
  by (simp add: getBasicForm_def)

lemma getBasicForm_promise_empty:
  "tokenize searchTerm = [] \<Longrightarrow> getBasicForm_promise (Inr tokenize) searchTerm = Inl TypeError"
  by (simp add: getBasicForm_promise_def)

text \<open>
  C4: when the tokenizer returns no token, the function \<open>getBasicForm\<close> of the
  function-based entry points does not return the query: it throws a TypeError on
  \<open>tokens[0].basic_form\<close>. \<open>DictionaryApp.getBasicForm\<close> of \<open>index.ts\<close> returns the
  query unchanged. Here the query is the empty string.
\<close>

theorem C4_getBasicForm_promise_throws:
  "getBasicForm_promise (Inr (\<lambda>text. [])) [] = Inl TypeError
   \<and> getBasicForm (\<lambda>text. []) [] = []"
  by (simp add: getBasicForm_promise_def getBasicForm_def)

section \<open>Properties of the loaders\<close>

lemma same_index_refl [simp]: "same_index S S"
  by (simp add: same_index_def)

lemma same_index_console [simp]: "same_index (S\<lparr>console := c\<rparr>) T = same_index S T"
  "same_index S (T\<lparr>console := c\<rparr>) = same_index S T"
  by (simp_all add: same_index_def)

lemma same_index_index_entry:
  "same_index S T \<Longrightarrow> same_index (index_entry e S) (index_entry e T)"
  by (simp add: same_index_def index_entry_def Let_def)

lemma same_index_load_entries:
  "same_index S T \<Longrightarrow>
   fst (load_entries L es S) = fst (load_entries L es T) \<and>
   same_index (snd (load_entries L es S)) (snd (load_entries L es T))"
  by (induction es arbitrary: S T) (auto simp: same_index_index_entry split: sum.splits)

lemma same_index_load_file:
  "same_index S T \<Longrightarrow>
   fst (load_file L p f S) = fst (load_file L p f T) \<and>
   same_index (snd (load_file L p f S)) (snd (load_file L p f T))"
  by (auto simp: load_file_def Let_def same_index_load_entries split: sum.splits option.splits)

lemma same_index_load_files:
  "same_index S T \<Longrightarrow>
   fst (load_files L p fs S) = fst (load_files L p fs T) \<and>
   same_index (snd (load_files L p fs S)) (snd (load_files L p fs T))"
proof (induction fs arbitrary: S T)
  case Nil
  then show ?case by simp
next
  case (Cons f fs)
  obtain o1 S1 where s: "load_file L p f S = (o1, S1)" by (cases "load_file L p f S")
  obtain o2 T1 where t: "load_file L p f T = (o2, T1)" by (cases "load_file L p f T")
  from same_index_load_file [OF Cons.prems, of L p f] s t
  have eq: "o1 = o2" "same_index S1 T1" by simp_all
  show ?case
  proof (cases o1)
    case None
    with eq s t Cons.IH [OF eq(2)] show ?thesis by simp
  next
    case (Some e)
    with eq s t show ?thesis by auto
  qed
qed

lemma same_index_load_collection:
  "same_index S T \<Longrightarrow>
   fst (load_collection L d c S) = fst (load_collection L d c T) \<and>
   same_index (snd (load_collection L d c S)) (snd (load_collection L d c T))"
  by (auto simp: load_collection_def Let_def same_index_load_files split: sum.splits)

lemma same_index_load_collections:
  "same_index S T \<Longrightarrow>
   fst (load_collections L d cs S) = fst (load_collections L d cs T) \<and>
   same_index (snd (load_collections L d cs S)) (snd (load_collections L d cs T))"
proof (induction cs arbitrary: S T)
  case Nil
  then show ?case by simp
next
  case (Cons c cs)
  obtain o1 S1 where s: "load_collection L d c S = (o1, S1)" by (cases "load_collection L d c S")
  obtain o2 T1 where t: "load_collection L d c T = (o2, T1)" by (cases "load_collection L d c T")
  from same_index_load_collection [OF Cons.prems, of L d c] s t
  have eq: "o1 = o2" "same_index S1 T1" by simp_all
  show ?case
  proof (cases o1)
    case None
    with eq s t Cons.IH [OF eq(2)] show ?thesis by simp
  next
    case (Some e)
    with eq s t show ?thesis by auto
  qed
qed

lemma load_file_SyntaxError:
  "JSON_parse L data = None \<Longrightarrow>
   load_file L collectionPath (File name (Inr data)) S =
     (None, S\<lparr>console := console S @ [ErrorParsingJSONFile (path_join L collectionPath name)]\<rparr>)"
  by (simp add: load_file_def)

lemma load_files_append:
  "load_files L p (pre @ post) S =
     (case load_files L p pre S of (Some e, S') \<Rightarrow> (Some e, S') | (None, S') \<Rightarrow> load_files L p post S')"
proof (induction pre arbitrary: S)
  case Nil
  show ?case by simp
next
  case (Cons f pre)
  then show ?case
    by (cases "load_file L p f S") (auto split: option.splits)
qed

lemma load_collections_append:
  "load_collections L d (pre @ post) S =
     (case load_collections L d pre S of (Some e, S') \<Rightarrow> (Some e, S')
      | (None, S') \<Rightarrow> load_collections L d post S')"
proof (induction pre arbitrary: S)
  case Nil
  show ?case by simp
next
  case (Cons c pre)
  then show ?case
    by (cases "load_collection L d c S") (auto split: option.splits)
qed

text \<open>
  The class-based loader skips a file that does not parse: the load of the files after it
  goes on, and the outcome and the index are those of the same directory without the
  file.
\<close>

lemma load_files_skips_bad:
  assumes "JSON_parse L data = None"
  shows "fst (load_files L p (pre @ File name (Inr data) # post) S) = fst (load_files L p (pre @ post) S)
    \<and> same_index (snd (load_files L p (pre @ File name (Inr data) # post) S))
        (snd (load_files L p (pre @ post) S))"
proof -
  obtain o1 S1 where pre: "load_files L p pre S = (o1, S1)" by (cases "load_files L p pre S")
  show ?thesis
  proof (cases o1)
    case (Some e)
    with pre show ?thesis by (simp add: load_files_append)
  next
    case None
    let ?S2 = "S1\<lparr>console := console S1 @ [ErrorParsingJSONFile (path_join L p name)]\<rparr>"
    have "load_files L p (pre @ File name (Inr data) # post) S = load_files L p post ?S2"
      using pre None assms by (simp add: load_files_append load_file_SyntaxError)
    moreover have "load_files L p (pre @ post) S = load_files L p post S1"
      using pre None by (simp add: load_files_append)
    moreover have "same_index ?S2 S1" by simp
    ultimately show ?thesis
      using same_index_load_files [of ?S2 S1 L p post] by simp
  qed
qed

lemma loadDictionaries_skips_bad:
  assumes "JSON_parse L data = None"
    and "path_extname L name = ascii ''.json''"
  shows "fst (loadDictionaries L d
           (Inr (cs1 @ Collection n (Inr True) (Inr (pre @ File name (Inr data) # post)) # cs2)) S) =
         fst (loadDictionaries L d (Inr (cs1 @ Collection n (Inr True) (Inr (pre @ post)) # cs2)) S)
    \<and> same_index
        (snd (loadDictionaries L d
           (Inr (cs1 @ Collection n (Inr True) (Inr (pre @ File name (Inr data) # post)) # cs2)) S))
        (snd (loadDictionaries L d (Inr (cs1 @ Collection n (Inr True) (Inr (pre @ post)) # cs2)) S))"
proof -
  let ?json = "\<lambda>file. path_extname L (file_name file) = ascii ''.json''"
  let ?bad = "Collection n (Inr True) (Inr (pre @ File name (Inr data) # post))"
  let ?good = "Collection n (Inr True) (Inr (pre @ post))"
  have c: "fst (load_collection L d ?bad T) = fst (load_collection L d ?good T)
      \<and> same_index (snd (load_collection L d ?bad T)) (snd (load_collection L d ?good T))" for T
    using load_files_skips_bad [OF assms(1), of "path_join L d n" "filter ?json pre" name "filter ?json post" T]
      assms(2) by (simp add: load_collection_def)
  have cs: "fst (load_collections L d (?bad # cs2) T) = fst (load_collections L d (?good # cs2) T)
      \<and> same_index (snd (load_collections L d (?bad # cs2) T)) (snd (load_collections L d (?good # cs2) T))" for T
  proof -
    obtain o1 S1 where s: "load_collection L d ?bad T = (o1, S1)" by (cases "load_collection L d ?bad T")
    obtain o2 T1 where t: "load_collection L d ?good T = (o2, T1)" by (cases "load_collection L d ?good T")
    from c [of T] s t have eq: "o1 = o2" "same_index S1 T1" by simp_all
    show ?thesis
    proof (cases o1)
      case None
      with eq s t same_index_load_collections [OF eq(2), of L d cs2] show ?thesis by simp
    next
      case (Some e)
      with eq s t show ?thesis by auto
    qed
  qed
  have all: "fst (load_collections L d (cs1 @ ?bad # cs2) S) = fst (load_collections L d (cs1 @ ?good # cs2) S)
      \<and> same_index (snd (load_collections L d (cs1 @ ?bad # cs2) S))
          (snd (load_collections L d (cs1 @ ?good # cs2) S))"
  proof -
    obtain o1 S1 where pre: "load_collections L d cs1 S = (o1, S1)" by (cases "load_collections L d cs1 S")
    show ?thesis
    proof (cases o1)
      case None
      with pre cs [of S1] show ?thesis by (simp add: load_collections_append)
    next
      case (Some e)
      with pre show ?thesis by (simp add: load_collections_append)
    qed
  qed
  obtain o1 S1 where s: "load_collections L d (cs1 @ ?bad # cs2) S = (o1, S1)"
    by (cases "load_collections L d (cs1 @ ?bad # cs2) S")
  obtain o2 T1 where t: "load_collections L d (cs1 @ ?good # cs2) S = (o2, T1)"
    by (cases "load_collections L d (cs1 @ ?good # cs2) S")
  from all s t have eq: "o1 = o2" "same_index S1 T1" by simp_all
  show ?thesis
    using s t eq by (cases o1) (auto simp: loadDictionaries_def same_index_def)
qed

text \<open>
  The function-based loader rejects as soon as one file does not parse.
\<close>

lemma readPromises_SyntaxError:
  assumes "JSON_parse L data = None" and "File name (Inr data) \<in> set files"
  shows "\<exists>e. readPromises L files termBank = Inl e"
  using assms(2)
proof (induction files arbitrary: termBank)
  case Nil
  then show ?case by simp
next
  case (Cons f files)
  show ?case
  proof (cases "f = File name (Inr data)")
    case True
    with assms(1) show ?thesis by simp
  next
    case False
    with Cons show ?thesis
      by (cases f) (auto split: sum.splits option.splits)
  qed
qed

lemma readPromises_schedule_SyntaxError:
  assumes "JSON_parse L data = None" and "File name (Inr data) \<in> set files"
    and "set (schedule files) = set files"
  shows "\<exists>e. readPromises L (schedule files) termBank = Inl e"
  using assms readPromises_SyntaxError [of L data name "schedule files" termBank] by simp

text \<open>
  C6: a collection with a file that is not valid JSON and a file that is. The
  function-based loader rejects with the SyntaxError and builds no map at all, in
  whichever order the two reads complete; the
  class-based loader of \<open>index.ts\<close> logs the path of the bad file, completes, and the
  entry of the other file is found.
\<close>

theorem C6_loadDictionaries_map_aborts:
  "loadDictionaries_map sample_lib (\<lambda>files. files) sample_fs = Inl SyntaxError
   \<and> loadDictionaries_map sample_lib rev sample_fs = Inl SyntaxError
   \<and> fst (loadDictionaries sample_lib (ascii ''dictionaries/'') sample_fs constructor) = None
   \<and> console (snd (loadDictionaries sample_lib (ascii ''dictionaries/'') sample_fs constructor)) =
       [ErrorParsingJSONFile (ascii ''dictionaries/jmdict/bad.json'')]
   \<and> findTerm (snd (loadDictionaries sample_lib (ascii ''dictionaries/'') sample_fs constructor))
       (ascii ''neko'') = Inr [0]"
proof -
  have a: "loadDictionaries_map sample_lib (\<lambda>files. files) sample_fs = Inl SyntaxError"
    by (simp add: loadDictionaries_map_def sample_fs_def sample_files_def sample_lib_def
      and_then_def ascii_def bad_json_def sample_json_def kana_json_def)
  have a': "loadDictionaries_map sample_lib rev sample_fs = Inl SyntaxError"
    by (simp add: loadDictionaries_map_def sample_fs_def sample_files_def sample_lib_def
      and_then_def ascii_def bad_json_def sample_json_def kana_json_def)
  have b: "fst (loadDictionaries sample_lib (ascii ''dictionaries/'') sample_fs constructor) = None"
    by (simp add: sample_defs)
  have c: "console (snd (loadDictionaries sample_lib (ascii ''dictionaries/'') sample_fs constructor)) =
       [ErrorParsingJSONFile (ascii ''dictionaries/jmdict/bad.json'')]"
    by (simp add: sample_defs)
  have d: "findTerm (snd (loadDictionaries sample_lib (ascii ''dictionaries/'') sample_fs constructor))
       (ascii ''neko'') = Inr [0]"
    by (simp add: sample_defs)
  from a a' b c d show ?thesis by simp
qed

section \<open>Properties of the lookup resolver\<close>

lemma js_index_ok: "entry \<noteq> JNull \<Longrightarrow> entry \<noteq> JUndefined \<Longrightarrow> \<exists>v. js_index entry i = Inr v"
  by (cases entry) simp_all

lemma entry_matches_ok:
  assumes "entry \<noteq> JNull" "entry \<noteq> JUndefined"
  shows "entry_matches q entry = Inr (is_exact_match q entry)"
proof -
  from assms obtain v0 v1 where "js_index entry 0 = Inr v0" "js_index entry 1 = Inr v1"
    using js_index_ok by blast
  then show ?thesis
    by (auto simp: entry_matches_def and_then_def is_exact_match_def)
qed

lemma filter_bank_ok:
  "indexable termBank \<Longrightarrow> filter_bank q termBank = Inr (filter (is_exact_match q) termBank)"
  by (induction termBank) (auto simp: indexable_def entry_matches_ok and_then_def)

lemma indexable_filter: "indexable termBank \<Longrightarrow> indexable (filter P termBank)"
  by (induction termBank) (auto simp: indexable_def)

lemma display_each_ok:
  "indexable results \<Longrightarrow>
   display_each results =
     Inr (concat (map (\<lambda>result. logContent (projr (js_index result 5)) [] @ [ascii ''---'']) results))"
proof (induction results)
  case Nil
  show ?case by simp
next
  case (Cons r rs)
  from Cons.prems obtain v where "js_index r 5 = Inr v"
    using js_index_ok [of r 5] by (auto simp: indexable_def)
  with Cons show ?case by (simp add: and_then_def indexable_def)
qed

lemma display_results_ok:
  "indexable results \<Longrightarrow> display_results n results = Inr (shown_lines n results)"
  by (simp add: display_results_def display_each_ok and_then_def shown_lines_def)

lemma show_results_ok:
  "indexable results \<Longrightarrow>
   show_results n results st = (Inr results, st\<lparr>stdout := stdout st @ shown_lines n results\<rparr>)"
  by (simp add: show_results_def display_results_ok)

lemma resolve_collection_exact:
  assumes "indexable termBank" and "filter (is_exact_match q) termBank \<noteq> []"
  shows "resolve_collection g q (n, termBank) st =
    (Inr (filter (is_exact_match q) termBank),
     st\<lparr>stdout := stdout st @ shown_lines n (filter (is_exact_match q) termBank)\<rparr>)"
  using assms by (simp add: resolve_collection_def filter_bank_ok show_results_ok indexable_filter)

lemma ensure_basicForm_call:
  "basicForm st = None \<or> basicForm st = Some [] \<Longrightarrow> g q = Inr b \<Longrightarrow>
   ensure_basicForm g q st = (Inr b, st\<lparr>basicForm := Some b, calls := calls st @ [q]\<rparr>)"
  by (auto simp: ensure_basicForm_def)

lemma ensure_basicForm_rejected:
  "basicForm st = None \<or> basicForm st = Some [] \<Longrightarrow> g q = Inl e \<Longrightarrow>
   ensure_basicForm g q st = (Inl e, st\<lparr>calls := calls st @ [q]\<rparr>)"
  by (auto simp: ensure_basicForm_def)

lemma ensure_basicForm_memo:
  "basicForm st = Some b \<Longrightarrow> b \<noteq> [] \<Longrightarrow> ensure_basicForm g q st = (Inr b, st)"
  by (simp add: ensure_basicForm_def)

lemma resolve_collection_fallback:
  assumes "indexable termBank" and "filter (is_exact_match q) termBank = []"
    and "ensure_basicForm g q st = (Inr b, st1)"
  shows "resolve_collection g q (n, termBank) st =
      (Inr (filter (is_exact_match b) termBank),
       if filter (is_exact_match b) termBank = [] then st1
       else st1\<lparr>stdout := stdout st1 @ shown_lines n (filter (is_exact_match b) termBank)\<rparr>)"
  using assms by (simp add: resolve_collection_def filter_bank_ok show_results_ok indexable_filter)

lemma resolve_collection_rejected:
  assumes "indexable termBank" and "filter (is_exact_match q) termBank = []"
    and "ensure_basicForm g q st = (Inl e, st1)"
  shows "resolve_collection g q (n, termBank) st = (Inl e, st1)"
  using assms by (simp add: resolve_collection_def filter_bank_ok)

text \<open>
  The loop when \<open>getBasicForm\<close> resolves with a lemma that is not the empty string.
\<close>

lemma for_collections_resolved:
  assumes g: "g q = Inr b" and ne: "b \<noteq> []"
  shows "list_all (\<lambda>c. indexable (snd c)) dm \<Longrightarrow> basicForm st = None \<or> basicForm st = Some b \<Longrightarrow>
    \<exists>st'. for_collections g q dm st = (None, map (\<lambda>c. resolve_spec q b (snd c)) dm, st')
      \<and> basicForm st' = (if filter (needs_lemma q) dm \<noteq> [] then Some b else basicForm st)
      \<and> calls st' = calls st @
            (if basicForm st = None \<and> filter (needs_lemma q) dm \<noteq> [] then [q] else [])
      \<and> stdout st' = stdout st @
            concat (map (\<lambda>c. collection_output (fst c) (resolve_spec q b (snd c))) dm)"
proof (induction dm arbitrary: st)
  case Nil
  then show ?case by simp
next
  case (Cons c dm)
  obtain n termBank where c: "c = (n, termBank)" by (cases c)
  from Cons.prems c have wf: "indexable termBank" and wfs: "list_all (\<lambda>c. indexable (snd c)) dm"
    by simp_all
  have "\<exists>st1. resolve_collection g q (n, termBank) st = (Inr (resolve_spec q b termBank), st1)
    \<and> basicForm st1 = (if filter (is_exact_match q) termBank = [] then Some b else basicForm st)
    \<and> calls st1 = calls st @
        (if filter (is_exact_match q) termBank = [] \<and> basicForm st = None then [q] else [])
    \<and> stdout st1 = stdout st @ collection_output n (resolve_spec q b termBank)"
  proof (cases "filter (is_exact_match q) termBank = []")
    case False
    with resolve_collection_exact [OF wf False, of g n st] show ?thesis
      by (simp add: resolve_spec_def collection_output_def)
  next
    case True
    show ?thesis
    proof (cases "basicForm st")
      case None
      then have "basicForm st = None \<or> basicForm st = Some []" by simp
      from ensure_basicForm_call [where g = g and q = q, OF this g]
        resolve_collection_fallback [OF wf True, of g st b _ n]
      show ?thesis using True None by (auto simp: resolve_spec_def collection_output_def)
    next
      case (Some b')
      with Cons.prems(2) have m: "basicForm st = Some b" by simp
      from ensure_basicForm_memo [OF m ne, of g q]
        resolve_collection_fallback [OF wf True, of g st b st n]
      show ?thesis using True m by (auto simp: resolve_spec_def collection_output_def)
    qed
  qed
  then obtain st1 where r: "resolve_collection g q (n, termBank) st = (Inr (resolve_spec q b termBank), st1)"
    and m1: "basicForm st1 = (if filter (is_exact_match q) termBank = [] then Some b else basicForm st)"
    and c1: "calls st1 = calls st @
        (if filter (is_exact_match q) termBank = [] \<and> basicForm st = None then [q] else [])"
    and o1: "stdout st1 = stdout st @ collection_output n (resolve_spec q b termBank)"
    by blast
  from m1 Cons.prems(2) have memo1: "basicForm st1 = None \<or> basicForm st1 = Some b"
    by auto
  from Cons.IH [OF wfs memo1]
  obtain st2 where l: "for_collections g q dm st1 = (None, map (\<lambda>c. resolve_spec q b (snd c)) dm, st2)"
    and m2: "basicForm st2 = (if filter (needs_lemma q) dm \<noteq> [] then Some b else basicForm st1)"
    and c2: "calls st2 = calls st1 @
            (if basicForm st1 = None \<and> filter (needs_lemma q) dm \<noteq> [] then [q] else [])"
    and o2: "stdout st2 = stdout st1 @
            concat (map (\<lambda>c. collection_output (fst c) (resolve_spec q b (snd c))) dm)"
    by blast
  have res: "for_collections g q (c # dm) st = (None, map (\<lambda>c. resolve_spec q b (snd c)) (c # dm), st2)"
    using r l c by simp
  have k1: "calls st2 = calls st @
      (if basicForm st = None \<and> filter (needs_lemma q) (c # dm) \<noteq> [] then [q] else [])"
    using c1 c2 m1 c Cons.prems(2) by (auto simp: needs_lemma_def)
  have k2: "basicForm st2 = (if filter (needs_lemma q) (c # dm) \<noteq> [] then Some b else basicForm st)"
    using m1 m2 c by (auto simp: needs_lemma_def)
  have k3: "stdout st2 = stdout st @
      concat (map (\<lambda>c. collection_output (fst c) (resolve_spec q b (snd c))) (c # dm))"
    using o1 o2 c by simp
  from res k1 k2 k3 show ?case by blast
qed

text \<open>
  The loop when \<open>getBasicForm\<close> rejects or throws: it ends at the first collection
  without an exact match, after the one call.
\<close>

lemma for_collections_rejected:
  assumes g: "g q = Inl e"
  shows "list_all (\<lambda>c. indexable (snd c)) dm \<Longrightarrow> basicForm st = None \<Longrightarrow>
    \<exists>st'. for_collections g q dm st =
        (if filter (needs_lemma q) dm \<noteq> [] then Some e else None,
         map (\<lambda>c. filter (is_exact_match q) (snd c)) (takeWhile (\<lambda>c. \<not> needs_lemma q c) dm), st')
      \<and> basicForm st' = None
      \<and> calls st' = calls st @ (if filter (needs_lemma q) dm \<noteq> [] then [q] else [])
      \<and> stdout st' = stdout st @
          concat (map (\<lambda>c. shown_lines (fst c) (filter (is_exact_match q) (snd c)))
            (takeWhile (\<lambda>c. \<not> needs_lemma q c) dm))"
proof (induction dm arbitrary: st)
  case Nil
  then show ?case by simp
next
  case (Cons c dm)
  obtain n termBank where c: "c = (n, termBank)" by (cases c)
  from Cons.prems c have wf: "indexable termBank" and wfs: "list_all (\<lambda>c. indexable (snd c)) dm"
    by simp_all
  show ?case
  proof (cases "filter (is_exact_match q) termBank = []")
    case True
    from Cons.prems(2) have "basicForm st = None \<or> basicForm st = Some []" by simp
    from ensure_basicForm_rejected [where g = g and q = q, OF this g]
    have "resolve_collection g q (n, termBank) st = (Inl e, st\<lparr>calls := calls st @ [q]\<rparr>)"
      by (rule resolve_collection_rejected [OF wf True])
    with True c Cons.prems(2) show ?thesis
      by (simp add: needs_lemma_def)
  next
    case False
    let ?st1 = "st\<lparr>stdout := stdout st @ shown_lines n (filter (is_exact_match q) termBank)\<rparr>"
    have r: "resolve_collection g q (n, termBank) st = (Inr (filter (is_exact_match q) termBank), ?st1)"
      by (rule resolve_collection_exact [OF wf False])
    from Cons.prems(2) have "basicForm ?st1 = None" by simp
    from Cons.IH [OF wfs this] obtain st2 where
      l: "for_collections g q dm ?st1 =
        (if filter (needs_lemma q) dm \<noteq> [] then Some e else None,
         map (\<lambda>c. filter (is_exact_match q) (snd c)) (takeWhile (\<lambda>c. \<not> needs_lemma q c) dm), st2)"
      and m: "basicForm st2 = None"
      and k: "calls st2 = calls ?st1 @ (if filter (needs_lemma q) dm \<noteq> [] then [q] else [])"
      and o: "stdout st2 = stdout ?st1 @
          concat (map (\<lambda>c. shown_lines (fst c) (filter (is_exact_match q) (snd c)))
            (takeWhile (\<lambda>c. \<not> needs_lemma q c) dm))"
      by blast
    from r l c False have "for_collections g q (c # dm) st =
        (if filter (needs_lemma q) (c # dm) \<noteq> [] then Some e else None,
         map (\<lambda>c. filter (is_exact_match q) (snd c)) (takeWhile (\<lambda>c. \<not> needs_lemma q c) (c # dm)), st2)"
      by (simp add: needs_lemma_def)
    moreover from k c False have "calls st2 = calls st @
        (if filter (needs_lemma q) (c # dm) \<noteq> [] then [q] else [])"
      by (simp add: needs_lemma_def)
    moreover from o c False have "stdout st2 = stdout st @
          concat (map (\<lambda>c. shown_lines (fst c) (filter (is_exact_match q) (snd c)))
            (takeWhile (\<lambda>c. \<not> needs_lemma q c) (c # dm)))"
      by (simp add: needs_lemma_def)
    ultimately show ?thesis using m by blast
  qed
qed

text \<open>
  With an exact match in the collection, the loop body shows exactly the exact matches and
  leaves \<open>basicForm\<close> and the record of the calls as they were, whatever
  \<open>getBasicForm\<close> is.
\<close>

lemma resolve_collection_exact_any:
  assumes "indexable termBank" and "filter (is_exact_match q) termBank \<noteq> []"
  shows "resolve_collection g' q (n, termBank) st = resolve_collection g q (n, termBank) st"
  by (simp add: resolve_collection_exact [OF assms])

text \<open>
  \<open>DictionaryApp.start\<close> does not call \<open>getBasicForm\<close> when \<open>findTerm\<close> finds the
  search term.
\<close>

lemma start_processQuery_exact:
  "\<not> exit_command L q \<Longrightarrow> findTerm S q = Inr results \<Longrightarrow> results \<noteq> [] \<Longrightarrow>
   start_processQuery L tokenize S q = Prompted (Inr (results, []))"
  by (simp add: start_processQuery_def and_then_def)

lemma processQuery_exit: "exit_command L q \<Longrightarrow> processQuery L g q dm = Closed"
  by (simp add: processQuery_def)

text \<open>
  The memo test \<open>!basicForm\<close> holds of the empty string too: a lemma that is the empty
  string would be asked for again.
\<close>

lemma ensure_basicForm_empty_memo:
  "basicForm st = Some [] \<Longrightarrow> g q = Inr b \<Longrightarrow>
   ensure_basicForm g q st = (Inr b, st\<lparr>basicForm := Some b, calls := calls st @ [q]\<rparr>)"
  by (simp add: ensure_basicForm_def)

lemma sample_map_indexable: "list_all (\<lambda>c. indexable (snd c)) sample_map"
  by (simp add: sample_map_def indexable_def sample_entry_def hira_entry_def)

lemma not_exit_empty: "\<not> exit_command sample_lib []"
  by (simp add: exit_command_def sample_lib_def ascii_def)

lemma not_exit_nekos: "\<not> exit_command sample_lib (ascii ''nekos'')"
  by (simp add: exit_command_def sample_lib_def ascii_def)

lemma exit_Q: "exit_command sample_lib (ascii ''Q'')"
  by (simp add: exit_command_def sample_lib_def ascii_def)

lemma sample_matches:
  "filter (is_exact_match []) [sample_entry] = []"
  "filter (is_exact_match []) [hira_entry, sample_entry] = [hira_entry]"
  "filter (is_exact_match (ascii ''nekos'')) [sample_entry] = []"
  "filter (is_exact_match (ascii ''nekos'')) [hira_entry, sample_entry] = [hira_entry]"
  "filter (is_exact_match (ascii ''neko'')) [sample_entry] = [sample_entry]"
  by (simp_all add: is_exact_match_def sample_entry_def hira_entry_def array_get_def ascii_def)

text \<open>
  C2: the empty query (an empty line at the prompt) on three collections. The second holds
  an exact match, an entry whose reading is the empty string. The first holds none, so
  the loop awaits \<open>getBasicForm\<close> there, and the \<open>getBasicForm\<close> of the function-based
  entry points throws on the empty query (no token, no length check): the loop ends with
  the TypeError after one call, and the exact match of the second collection is never
  shown. With a \<open>getBasicForm\<close> that resolves, the second collection shows exactly its
  exact match.
\<close>

theorem C2_exact_match_not_shown:
  "filter (is_exact_match []) (snd (sample_map ! 1)) = [hira_entry]
   \<and> processQuery sample_lib (getBasicForm_promise (Inr (\<lambda>text. []))) [] sample_map =
       Prompted (Some TypeError, [], \<lparr>basicForm = None, calls = [[]], stdout = []\<rparr>)
   \<and> processQuery sample_lib (\<lambda>text. Inr (ascii ''*'')) [] sample_map =
       Prompted (None, [[], [hira_entry], []],
         \<lparr>basicForm = Some (ascii ''*''), calls = [[]],
           stdout = shown_lines (ascii ''kanadic'') [hira_entry]\<rparr>)"
proof -
  let ?g = "getBasicForm_promise (Inr (\<lambda>text. []))"
  let ?st = "\<lparr>basicForm = None, calls = [], stdout = []\<rparr>"
  have m: "filter (is_exact_match []) (snd (sample_map ! 1)) = [hira_entry]"
    by (simp add: sample_map_def is_exact_match_def sample_entry_def hira_entry_def
      array_get_def ascii_def)
  have n: "filter (needs_lemma []) sample_map \<noteq> []"
    "takeWhile (\<lambda>c. \<not> needs_lemma [] c) sample_map = []"
    by (simp_all add: sample_map_def needs_lemma_def is_exact_match_def sample_entry_def
      hira_entry_def array_get_def ascii_def)
  have g: "?g [] = Inl TypeError"
    by (simp add: getBasicForm_promise_def)
  from for_collections_rejected [where g = ?g, OF g sample_map_indexable, of ?st] n
  obtain st' where "for_collections ?g [] sample_map ?st = (Some TypeError, [], st')"
    "basicForm st' = None" "calls st' = [[]]" "stdout st' = []"
    by auto
  then have a: "processQuery sample_lib ?g [] sample_map =
       Prompted (Some TypeError, [], \<lparr>basicForm = None, calls = [[]], stdout = []\<rparr>)"
    using not_exit_empty by (cases st') (simp add: processQuery_def)
  have h: "(\<lambda>text. Inr (ascii ''*'') :: error + jsstring) [] = Inr (ascii ''*'')" "ascii ''*'' \<noteq> []"
    by (simp_all add: ascii_def)
  have r: "map (\<lambda>c. resolve_spec [] (ascii ''*'') (snd c)) sample_map = [[], [hira_entry], []]"
    by (simp add: sample_map_def resolve_spec_def is_exact_match_def sample_entry_def
      hira_entry_def array_get_def ascii_def)
  have o: "concat (map (\<lambda>c. collection_output (fst c) (resolve_spec [] (ascii ''*'') (snd c))) sample_map) =
      shown_lines (ascii ''kanadic'') [hira_entry]"
    by (simp add: sample_map_def resolve_spec_def is_exact_match_def sample_entry_def
      hira_entry_def array_get_def ascii_def collection_output_def)
  from for_collections_resolved [where g = "\<lambda>text. Inr (ascii ''*'')" and q = "[]",
      OF h sample_map_indexable, of ?st] n r o
  obtain st' where "for_collections (\<lambda>text. Inr (ascii ''*'')) [] sample_map ?st =
      (None, [[], [hira_entry], []], st')"
    "basicForm st' = Some (ascii ''*'')" "calls st' = [[]]"
    "stdout st' = shown_lines (ascii ''kanadic'') [hira_entry]"
    by auto
  then have b: "processQuery sample_lib (\<lambda>text. Inr (ascii ''*'')) [] sample_map =
       Prompted (None, [[], [hira_entry], []],
         \<lparr>basicForm = Some (ascii ''*''), calls = [[]],
           stdout = shown_lines (ascii ''kanadic'') [hira_entry]\<rparr>)"
    using not_exit_empty by (cases st') (simp add: processQuery_def)
  from m a b show ?thesis by simp
qed

text \<open>
  C3: within one query \<open>getBasicForm\<close> is called at most once: not at all for an exit
  command or when every collection has an exact match, and otherwise once, at the first
  collection without an exact match. When it resolves, its lemma is kept in \<open>basicForm\<close>
  and used for every later collection without an exact match, and every collection shows
  its own exact matches, or else its own matches of the lemma, whatever the other
  collections hold. When it rejects or throws, the loop ends there, after the
  collections with exact matches before it. The lemma is taken not to be the empty string
  (the tokenizer gives the dictionary form of a word or \<open>*\<close>), and the term banks to hold
  no \<open>null\<close>.
\<close>

theorem C3_lemma_once:
  assumes "list_all (\<lambda>c. indexable (snd c)) dictionaryMap"
    and "\<forall>b. g searchTerm = Inr b \<longrightarrow> b \<noteq> []"
  shows "(exit_command L searchTerm \<longrightarrow> processQuery L g searchTerm dictionaryMap = Closed)
   \<and> (\<not> exit_command L searchTerm \<longrightarrow>
       (\<exists>outcome shown st'.
          processQuery L g searchTerm dictionaryMap = Prompted (outcome, shown, st')
          \<and> calls st' = (if filter (needs_lemma searchTerm) dictionaryMap \<noteq> [] then [searchTerm] else [])
          \<and> length (calls st') \<le> 1
          \<and> (\<forall>b. g searchTerm = Inr b \<longrightarrow>
                outcome = None
                \<and> shown = map (\<lambda>c. resolve_spec searchTerm b (snd c)) dictionaryMap
                \<and> basicForm st' =
                    (if filter (needs_lemma searchTerm) dictionaryMap \<noteq> [] then Some b else None)
                \<and> stdout st' = concat (map (\<lambda>c.
                      collection_output (fst c) (resolve_spec searchTerm b (snd c))) dictionaryMap))
          \<and> (\<forall>e. g searchTerm = Inl e \<longrightarrow>
                outcome = (if filter (needs_lemma searchTerm) dictionaryMap \<noteq> [] then Some e else None)
                \<and> shown = map (\<lambda>c. filter (is_exact_match searchTerm) (snd c))
                    (takeWhile (\<lambda>c. \<not> needs_lemma searchTerm c) dictionaryMap))))"
proof (intro conjI impI)
  assume "exit_command L searchTerm"
  then show "processQuery L g searchTerm dictionaryMap = Closed"
    by (rule processQuery_exit)
next
  assume ne: "\<not> exit_command L searchTerm"
  let ?st = "\<lparr>basicForm = None, calls = [], stdout = []\<rparr>"
  show "\<exists>outcome shown st'.
          processQuery L g searchTerm dictionaryMap = Prompted (outcome, shown, st')
          \<and> calls st' = (if filter (needs_lemma searchTerm) dictionaryMap \<noteq> [] then [searchTerm] else [])
          \<and> length (calls st') \<le> 1
          \<and> (\<forall>b. g searchTerm = Inr b \<longrightarrow>
                outcome = None
                \<and> shown = map (\<lambda>c. resolve_spec searchTerm b (snd c)) dictionaryMap
                \<and> basicForm st' =
                    (if filter (needs_lemma searchTerm) dictionaryMap \<noteq> [] then Some b else None)
                \<and> stdout st' = concat (map (\<lambda>c.
                      collection_output (fst c) (resolve_spec searchTerm b (snd c))) dictionaryMap))
          \<and> (\<forall>e. g searchTerm = Inl e \<longrightarrow>
                outcome = (if filter (needs_lemma searchTerm) dictionaryMap \<noteq> [] then Some e else None)
                \<and> shown = map (\<lambda>c. filter (is_exact_match searchTerm) (snd c))
                    (takeWhile (\<lambda>c. \<not> needs_lemma searchTerm c) dictionaryMap))"
  proof (cases "g searchTerm")
    case (Inr b)
    with assms(2) have b: "b \<noteq> []" by simp
    have memo: "basicForm ?st = None \<or> basicForm ?st = Some b" by simp
    from for_collections_resolved [where g = g and q = searchTerm, OF Inr b assms(1) memo]
    obtain st' where f: "for_collections g searchTerm dictionaryMap ?st =
        (None, map (\<lambda>c. resolve_spec searchTerm b (snd c)) dictionaryMap, st')"
      and m: "basicForm st' =
        (if filter (needs_lemma searchTerm) dictionaryMap \<noteq> [] then Some b else basicForm ?st)"
      and c: "calls st' = calls ?st @
        (if basicForm ?st = None \<and> filter (needs_lemma searchTerm) dictionaryMap \<noteq> []
         then [searchTerm] else [])"
      and o: "stdout st' = stdout ?st @ concat (map (\<lambda>c.
          collection_output (fst c) (resolve_spec searchTerm b (snd c))) dictionaryMap)"
      by blast
    from m have "basicForm st' =
        (if filter (needs_lemma searchTerm) dictionaryMap \<noteq> [] then Some b else None)"
      by simp
    moreover from c have "calls st' =
        (if filter (needs_lemma searchTerm) dictionaryMap \<noteq> [] then [searchTerm] else [])"
      by simp
    moreover from o have "stdout st' = concat (map (\<lambda>c.
          collection_output (fst c) (resolve_spec searchTerm b (snd c))) dictionaryMap)"
      by simp
    moreover note f
    ultimately show ?thesis using ne Inr
      by (simp add: processQuery_def)
  next
    case (Inl e)
    have memo: "basicForm ?st = None" by simp
    from for_collections_rejected [where g = g and q = searchTerm, OF Inl assms(1) memo]
    obtain st' where f: "for_collections g searchTerm dictionaryMap ?st =
        (if filter (needs_lemma searchTerm) dictionaryMap \<noteq> [] then Some e else None,
         map (\<lambda>c. filter (is_exact_match searchTerm) (snd c))
           (takeWhile (\<lambda>c. \<not> needs_lemma searchTerm c) dictionaryMap), st')"
      and c: "calls st' = calls ?st @
        (if filter (needs_lemma searchTerm) dictionaryMap \<noteq> [] then [searchTerm] else [])"
      by blast
    from c have "calls st' =
        (if filter (needs_lemma searchTerm) dictionaryMap \<noteq> [] then [searchTerm] else [])"
      by simp
    with f ne Inl show ?thesis
      by (simp add: processQuery_def)
  qed
qed

theorem C3_lemma_once_witness:
  "list_all (\<lambda>c. indexable (snd c)) sample_map
   \<and> getBasicForm_promise (Inr (\<lambda>text. [neko_token])) (ascii ''nekos'') = Inr (ascii ''neko'')
   \<and> \<not> exit_command sample_lib (ascii ''nekos'')
   \<and> filter (needs_lemma (ascii ''nekos'')) sample_map =
       [(ascii ''jmdict'', [sample_entry]), (ascii ''names'', [sample_entry])]
   \<and> (\<exists>st'. processQuery sample_lib (getBasicForm_promise (Inr (\<lambda>text. [neko_token])))
         (ascii ''nekos'') sample_map =
         Prompted (None, [[sample_entry], [hira_entry], [sample_entry]], st')
       \<and> calls st' = [ascii ''nekos''] \<and> basicForm st' = Some (ascii ''neko''))
   \<and> getBasicForm_promise (Inr (\<lambda>text. [])) (ascii ''nekos'') = Inl TypeError
   \<and> (\<exists>st'. processQuery sample_lib (getBasicForm_promise (Inr (\<lambda>text. [])))
         (ascii ''nekos'') sample_map = Prompted (Some TypeError, [], st')
       \<and> calls st' = [ascii ''nekos''])
   \<and> exit_command sample_lib (ascii ''Q'')
   \<and> processQuery sample_lib (getBasicForm_promise (Inr (\<lambda>text. [neko_token])))
        (ascii ''Q'') sample_map = Closed"
proof -
  let ?g = "getBasicForm_promise (Inr (\<lambda>text. [neko_token]))"
  let ?f = "getBasicForm_promise (Inr (\<lambda>text. []))"
  note ev = sample_map_def needs_lemma_def resolve_spec_def is_exact_match_def sample_entry_def
    hira_entry_def array_get_def ascii_def
  have g: "?g (ascii ''nekos'') = Inr (ascii ''neko'')"
    by (simp add: getBasicForm_promise_def neko_token_def)
  have gne: "\<forall>b. ?g (ascii ''nekos'') = Inr b \<longrightarrow> b \<noteq> []"
    by (simp add: getBasicForm_promise_def neko_token_def ascii_def)
  have gq: "\<forall>b. ?g (ascii ''Q'') = Inr b \<longrightarrow> b \<noteq> []"
    by (simp add: getBasicForm_promise_def neko_token_def ascii_def)
  have f: "?f (ascii ''nekos'') = Inl TypeError"
    by (simp add: getBasicForm_promise_def)
  have fne: "\<forall>b. ?f (ascii ''nekos'') = Inr b \<longrightarrow> b \<noteq> []"
    by (simp add: getBasicForm_promise_def)
  have n: "filter (needs_lemma (ascii ''nekos'')) sample_map =
       [(ascii ''jmdict'', [sample_entry]), (ascii ''names'', [sample_entry])]"
    by (simp add: ev)
  have r: "map (\<lambda>c. resolve_spec (ascii ''nekos'') (ascii ''neko'') (snd c)) sample_map =
      [[sample_entry], [hira_entry], [sample_entry]]"
    by (simp add: ev)
  have t: "takeWhile (\<lambda>c. \<not> needs_lemma (ascii ''nekos'') c) sample_map = []"
    by (simp add: ev)
  from C3_lemma_once [where g = ?g and searchTerm = "ascii ''nekos''" and L = sample_lib,
      OF sample_map_indexable gne] not_exit_nekos g n r
  have a: "\<exists>st'. processQuery sample_lib ?g (ascii ''nekos'') sample_map =
         Prompted (None, [[sample_entry], [hira_entry], [sample_entry]], st')
       \<and> calls st' = [ascii ''nekos''] \<and> basicForm st' = Some (ascii ''neko'')"
    by auto
  from C3_lemma_once [where g = ?f and searchTerm = "ascii ''nekos''" and L = sample_lib,
      OF sample_map_indexable fne] not_exit_nekos f n t
  have b: "\<exists>st'. processQuery sample_lib ?f (ascii ''nekos'') sample_map =
         Prompted (Some TypeError, [], st') \<and> calls st' = [ascii ''nekos'']"
    by auto
  from C3_lemma_once [where g = ?g and searchTerm = "ascii ''Q''" and L = sample_lib,
      OF sample_map_indexable gq] exit_Q
  have c: "processQuery sample_lib ?g (ascii ''Q'') sample_map = Closed"
    by blast
  from sample_map_indexable g not_exit_nekos n a f b exit_Q c show ?thesis
    by blast
qed

end
